theory Spec2Isabelle
  imports Main "HOL-Library.Sublist"
begin

section \<open>Python values used by \<open>baseparser.py\<close>\<close>

text \<open>
  The module is Python 2. A \<open>str\<close> is a sequence of 8-bit characters (HOL's \<open>char\<close>),
  a \<open>unicode\<close> object a sequence of code points. The regular expression and
  \<open>_decode_url\<close> accept both, so a text value carries its kind.
\<close>

type_synonym bytes = string
type_synonym unicode = "nat list"

datatype basestring = Str bytes | Unicode unicode

text \<open>
  The exceptions the module raises or lets through. \<open>UnicodeError\<close> and its subclass
  \<open>UnicodeEncodeError\<close> are subclasses of \<open>ValueError\<close> in Python, which is what
  \<open>except ValueError\<close> tests; \<open>AssertionError\<close> and \<open>LookupError\<close> are not.
\<close>

datatype exn =
    ValueError string
  | UnicodeError
  | UnicodeEncodeError
  | LookupError
  | AssertionError
  | NotImplementedError string

fun is_ValueError :: "exn \<Rightarrow> bool" where
  "is_ValueError (ValueError m) = True"
| "is_ValueError UnicodeError = True"
| "is_ValueError UnicodeEncodeError = True"
| "is_ValueError LookupError = False"
| "is_ValueError AssertionError = False"
| "is_ValueError (NotImplementedError m) = False"

section \<open>Collaborators that are not part of the module\<close>

text \<open>
  A registered codec as the module uses it: \<open>unicode.encode(enc)\<close> (strict, so it may
  raise \<open>UnicodeEncodeError\<close>, here \<open>None\<close>) and \<open>str.decode(enc, 'ignore')\<close>. The
  decoder of a character encoding skips malformed input under \<open>'ignore'\<close>; the decoder of
  another registered codec may raise (\<open>hex\<close>, \<open>base64\<close> and \<open>zlib\<close> assert that the error
  handler is \<open>'strict'\<close>, \<open>idna\<close> raises \<open>UnicodeError\<close> for any other handler).
\<close>

record codec =
  encode :: "unicode \<Rightarrow> bytes option"
  decode_ignore :: "bytes \<Rightarrow> exn + unicode"

text \<open>
  The rest of the environment: the codec registry (\<open>codecs.lookup\<close>), the Unicode
  database's alphanumeric test behind \<open>\w\<close> under \<open>re.U\<close>, and the class \<open>URL\<close> of
  \<open>w3af.core.data.parsers.url\<close>, an external value type \<open>'u\<close>: its constructor
  (\<open>None\<close> when it raises \<open>ValueError\<close>, its construction failure), \<open>normalize_url\<close>
  (run in place on an object, here the object's new value), the two domain accessors,
  and \<open>__eq__\<close> and \<open>__hash__\<close>, which the built-in set uses.
\<close>

record 'u environment =
  codecs_lookup :: "string \<Rightarrow> codec option"
  unicode_isalnum :: "nat \<Rightarrow> bool"
  URL :: "unicode \<Rightarrow> string \<Rightarrow> 'u option"
  normalize_url :: "'u \<Rightarrow> 'u"
  get_domain :: "'u \<Rightarrow> string"
  get_root_domain :: "'u \<Rightarrow> string"
  url_eq :: "'u \<Rightarrow> 'u \<Rightarrow> bool"
  url_hash :: "'u \<Rightarrow> int"

text \<open>The HTTP response handed to the constructor, by its three getters.\<close>

record 'u http_response =
  get_charset :: string
  get_url :: 'u
  get_redir_url :: "'u option"

text \<open>
  Modelled from the spec: \<open>is_known_encoding\<close> of \<open>w3af.core.data.misc.encoding\<close> is not
  among the sources. The spec's EncodingValidator reports whether a declared charset name
  is known/supported: whether the codec registry resolves the name.
\<close>

definition is_known_encoding :: "'u environment \<Rightarrow> string \<Rightarrow> bool" where
  "is_known_encoding env encoding = (codecs_lookup env encoding \<noteq> None)"

section \<open>The built-in set of URL objects\<close>

text \<open>
  \<open>self._re_urls\<close> is a Python \<open>set\<close>. An entry keeps the hash the object had when it was
  added, next to the object. \<open>add\<close> looks for an entry with the same stored hash whose
  object is \<open>==\<close> to the new one, and adds the new object only when there is none. The
  objects are owned by the set alone, so an in-place \<open>normalize_url\<close> is an update of the
  entry's object that leaves the stored hash as it was.
\<close>

type_synonym 'u pyset = "(int \<times> 'u) list"

definition set_contains :: "'u environment \<Rightarrow> 'u pyset \<Rightarrow> 'u \<Rightarrow> bool" where
  "set_contains env s x = list_ex (\<lambda>(h, e). h = url_hash env x \<and> url_eq env e x) s"

definition set_add :: "'u environment \<Rightarrow> 'u \<Rightarrow> 'u pyset \<Rightarrow> 'u pyset" where
  "set_add env x s = (if set_contains env s x then s else s @ [(url_hash env x, x)])"

definition elements :: "'u pyset \<Rightarrow> 'u list" where
  "elements s = map snd s"

section \<open>The regular expression \<open>URL_RE\<close>\<close>

text \<open>
  A backtracking matcher for the constructs the pattern uses, in the order Python's \<open>re\<close>
  tries them: the first alternative before the second, a lazy star the shorter match
  first, a greedy star the longer first. \<open>rmatch r s k\<close> matches \<open>r\<close> at the start of
  \<open>s\<close> and hands the remaining input to the continuation \<open>k\<close>; \<open>None\<close> makes the matcher
  backtrack. A capture group matches as its body does.
\<close>

datatype 'a regex =
    Lits "'a list"
  | Seq "'a regex" "'a regex"
  | Alt "'a regex" "'a regex"
  | Star_greedy "'a \<Rightarrow> bool"
  | Star_lazy "'a \<Rightarrow> bool"
  | Group "'a regex"

fun star_greedy :: "('a \<Rightarrow> bool) \<Rightarrow> 'a list \<Rightarrow> ('a list \<Rightarrow> 'b option) \<Rightarrow> 'b option" where
  "star_greedy p [] k = k []"
| "star_greedy p (x # xs) k =
     (if p x then (case star_greedy p xs k of Some r \<Rightarrow> Some r | None \<Rightarrow> k (x # xs))
      else k (x # xs))"

fun star_lazy :: "('a \<Rightarrow> bool) \<Rightarrow> 'a list \<Rightarrow> ('a list \<Rightarrow> 'b option) \<Rightarrow> 'b option" where
  "star_lazy p [] k = k []"
| "star_lazy p (x # xs) k =
     (case k (x # xs) of
        Some r \<Rightarrow> Some r
      | None \<Rightarrow> if p x then star_lazy p xs k else None)"

primrec rmatch :: "'a regex \<Rightarrow> 'a list \<Rightarrow> ('a list \<Rightarrow> 'b option) \<Rightarrow> 'b option" where
  "rmatch (Lits w) s k = (if prefix w s then k (drop (length w) s) else None)"
| "rmatch (Seq a b) s k = rmatch a s (\<lambda>s'. rmatch b s' k)"
| "rmatch (Alt a b) s k = (case rmatch a s k of Some r \<Rightarrow> Some r | None \<Rightarrow> rmatch b s k)"
| "rmatch (Star_greedy p) s k = star_greedy p s k"
| "rmatch (Star_lazy p) s k = star_lazy p s k"
| "rmatch (Group a) s k = rmatch a s k"

text \<open>
  \<open>findall\<close>: the non-overlapping matches, scanning from the left. After a match the
  scan goes on where the match ended; an empty match is recorded and the scan moves one
  character on. The module reads only \<open>url[0]\<close>, the first group, which is the whole
  match, so the model returns the matched text.
\<close>

function findall :: "'a regex \<Rightarrow> 'a list \<Rightarrow> 'a list list" where
  "findall r s =
     (case rmatch r s Some of
        Some rest \<Rightarrow>
          if length rest < length s then take (length s - length rest) s # findall r rest
          else (case s of [] \<Rightarrow> [[]] | _ # t \<Rightarrow> [] # findall r t)
      | None \<Rightarrow> (case s of [] \<Rightarrow> [] | _ # t \<Rightarrow> findall r t))"
  by pat_completeness auto
termination
  by (relation "measure (\<lambda>(r, s). length s)") auto

declare findall.simps [simp del]

text \<open>
  \<^verbatim>\<open>URL_RE = re.compile('((http|https)://([\w:@\-\./]*?)[^ \n\r\t"\'<>]*)', re.U)\<close>,
  over characters of type \<open>'a\<close>: \<open>lit\<close> embeds the pattern's characters, \<open>alnum\<close> is the
  alphanumeric test of \<open>\w\<close>.
\<close>

definition URL_RE :: "(char \<Rightarrow> 'a) \<Rightarrow> ('a \<Rightarrow> bool) \<Rightarrow> 'a regex" where
  "URL_RE lit alnum =
     Group (Seq (Group (Alt (Lits (map lit ''http'')) (Lits (map lit ''https''))))
           (Seq (Lits (map lit ''://''))
           (Seq (Group (Star_lazy (\<lambda>c. alnum c \<or> c \<in> lit ` set ''_:@-./'')))
                (Star_greedy (\<lambda>c. c \<notin> lit ` set [CHR '' '', CHR 0x0A, CHR 0x0D, CHR 0x09,
                                                     CHR 0x22, CHR 0x27, CHR ''<'', CHR ''>''])))))"

definition URL_RE_findall :: "'u environment \<Rightarrow> basestring \<Rightarrow> basestring list" where
  "URL_RE_findall env doc_str =
     (case doc_str of
        Str s \<Rightarrow> map Str (findall (URL_RE id (\<lambda>c. unicode_isalnum env (of_char c))) s)
      | Unicode u \<Rightarrow> map Unicode (findall (URL_RE of_char (unicode_isalnum env)) u))"

section \<open>\<open>urllib.unquote\<close>, \<open>str.replace\<close> and the UTF-8 decoder\<close>

text \<open>\<open>s.split(sep)\<close> for a one-character separator.\<close>

fun split :: "char \<Rightarrow> string \<Rightarrow> string list" where
  "split sep [] = [[]]"
| "split sep (c # cs) =
     (if c = sep then [] # split sep cs
      else (case split sep cs of [] \<Rightarrow> [[c]] | b # bs \<Rightarrow> (c # b) # bs))"

definition hexdig :: string where
  "hexdig = ''0123456789ABCDEFabcdef''"

text \<open>\<open>int(c, 16)\<close> for a hexadecimal digit \<open>c\<close>.\<close>

definition int16 :: "char \<Rightarrow> nat" where
  "int16 c =
     (let n = of_char c in
      if 48 \<le> n \<and> n \<le> 57 then n - 48
      else if 65 \<le> n \<and> n \<le> 70 then n - 55
      else n - 87)"

text \<open>
  \<open>urllib.unquote\<close> on a \<open>str\<close>: the string is split at \<open>%\<close>; an item that starts with two
  hexadecimal digits has them replaced by the character they name, any other item keeps
  its \<open>%\<close>.
\<close>

definition unquote_item :: "string \<Rightarrow> string" where
  "unquote_item item =
     (case item of
        a # b # rest \<Rightarrow>
          if a \<in> set hexdig \<and> b \<in> set hexdig
          then char_of (16 * int16 a + int16 b) # rest
          else CHR ''%'' # item
      | _ \<Rightarrow> CHR ''%'' # item)"

definition unquote :: "string \<Rightarrow> string" where
  "unquote s =
     (case split CHR ''%'' s of
        [] \<Rightarrow> s
      | b # bits \<Rightarrow> if bits = [] then s else b @ concat (map unquote_item bits))"

text \<open>\<open>s.replace(old, new)\<close>: every non-overlapping occurrence, from the left.\<close>

function replace :: "string \<Rightarrow> string \<Rightarrow> string \<Rightarrow> string" where
  "replace s old new =
     (if old = [] then new @ concat (map (\<lambda>c. c # new) s)
      else if prefix old s then new @ replace (drop (length old) s) old new
      else (case s of [] \<Rightarrow> [] | c # cs \<Rightarrow> c # replace cs old new))"
  by pat_completeness auto
termination
  by (relation "measure (\<lambda>(s, old, new). length s)") (auto simp: prefix_def)

declare replace.simps [simp del]

text \<open>
  \<open>str.decode('utf-8')\<close>, strict, as CPython 2.7 decodes: the first byte gives the length
  of the sequence (0 for a byte that cannot start one), the following bytes must be
  continuation bytes, overlong three- and four-byte forms and code points above
  \<open>0x10FFFF\<close> are errors, surrogates are let through. \<open>None\<close> is \<open>UnicodeDecodeError\<close>.
  One list element per code point.
\<close>

definition utf8_code_length :: "nat \<Rightarrow> nat" where
  "utf8_code_length b =
     (if b < 0x80 then 1 else if b < 0xC2 then 0 else if b < 0xE0 then 2
      else if b < 0xF0 then 3 else if b < 0xF5 then 4 else 0)"

definition is_cont :: "nat \<Rightarrow> bool" where
  "is_cont b = (b div 64 = 2)"

fun utf8_char :: "nat list \<Rightarrow> nat option" where
  "utf8_char [b0] = (if utf8_code_length b0 = 1 then Some b0 else None)"
| "utf8_char [b0, b1] =
     (if utf8_code_length b0 = 2 \<and> is_cont b1 then Some ((b0 mod 32) * 64 + b1 mod 64)
      else None)"
| "utf8_char [b0, b1, b2] =
     (if utf8_code_length b0 = 3 \<and> is_cont b1 \<and> is_cont b2 \<and> \<not> (b0 = 0xE0 \<and> b1 < 0xA0)
      then Some ((b0 mod 16) * 4096 + (b1 mod 64) * 64 + b2 mod 64)
      else None)"
| "utf8_char [b0, b1, b2, b3] =
     (if utf8_code_length b0 = 4 \<and> is_cont b1 \<and> is_cont b2 \<and> is_cont b3
         \<and> \<not> (b0 = 0xF0 \<and> b1 < 0x90) \<and> \<not> (b0 = 0xF4 \<and> b1 > 0x8F)
      then Some ((b0 mod 8) * 262144 + (b1 mod 64) * 4096 + (b2 mod 64) * 64 + b3 mod 64)
      else None)"
| "utf8_char bs = None"

function utf8_decode :: "bytes \<Rightarrow> unicode option" where
  "utf8_decode s =
     (case s of
        [] \<Rightarrow> Some []
      | c # cs \<Rightarrow>
          let n = utf8_code_length (of_char c) in
          if n = 0 then None
          else (case utf8_char (map of_char (take n s)) of
                  None \<Rightarrow> None
                | Some u \<Rightarrow> map_option ((#) u) (utf8_decode (drop n s))))"
  by pat_completeness auto
termination
  by (relation "measure length") auto

declare utf8_decode.simps [simp del]

section \<open>The class \<open>BaseParser\<close>\<close>

text \<open>The instance attributes \<open>_base_url\<close>, \<open>_baseDomain\<close>, \<open>_rootDomain\<close>, \<open>_encoding\<close>, \<open>_re_urls\<close>.\<close>

record 'u BaseParser =
  base_url :: 'u
  baseDomain :: string
  rootDomain :: string
  encoding :: string
  re_urls :: "'u pyset"

definition SAFE_CHARS :: "(string \<times> string) list" where
  "SAFE_CHARS = [([CHR 0x00], ''%00'')]"

text \<open>
  \<open>__init__\<close>. An exception leaves no instance behind: the result is either the exception
  or the constructed parser. \<open>if redir_url:\<close> is the test for \<open>None\<close> (a URL object is
  true).
\<close>

definition BaseParser_init :: "'u environment \<Rightarrow> 'u http_response \<Rightarrow> exn + 'u BaseParser" where
  "BaseParser_init env http_response =
     (let encoding = get_charset http_response in
      if \<not> is_known_encoding env encoding
      then Inl (ValueError (''Unknown encoding: '' @ encoding))
      else
        let url = get_url http_response;
            redir_url = get_redir_url http_response;
            url = (case redir_url of Some r \<Rightarrow> r | None \<Rightarrow> url)
        in Inr \<lparr>base_url = url,
                baseDomain = get_domain env url,
                rootDomain = get_root_domain env url,
                encoding = get_charset http_response,
                re_urls = []\<rparr>)"

text \<open>
  \<open>_decode_url\<close>, in its three parts: the bytes of the argument (lines 108-109), the
  unquoting and the substitutions of \<open>SAFE_CHARS\<close> (lines 111-113), and the decoding
  (lines 119-122), UTF-8 first and the instance's encoding with \<open>'ignore'\<close> when that
  raises \<open>UnicodeDecodeError\<close>; what the codec's decoder raises there leaves
  \<open>_decode_url\<close>. Looking up an encoding the registry does not know raises \<open>LookupError\<close>.
\<close>

definition encode_input :: "'u environment \<Rightarrow> string \<Rightarrow> basestring \<Rightarrow> exn + bytes" where
  "encode_input env enc url_string =
     (case url_string of
        Str b \<Rightarrow> Inr b
      | Unicode u \<Rightarrow>
          (case codecs_lookup env enc of
             None \<Rightarrow> Inl LookupError
           | Some c \<Rightarrow> (case encode c u of None \<Rightarrow> Inl UnicodeEncodeError | Some b \<Rightarrow> Inr b)))"

definition unquote_safe :: "bytes \<Rightarrow> bytes" where
  "unquote_safe url_string =
     foldl (\<lambda>dec_url (sch, repl). replace dec_url sch repl) (unquote url_string) SAFE_CHARS"

definition decode_bytes :: "'u environment \<Rightarrow> string \<Rightarrow> bytes \<Rightarrow> exn + unicode" where
  "decode_bytes env enc dec_url =
     (case utf8_decode dec_url of
        Some u \<Rightarrow> Inr u
      | None \<Rightarrow>
          (case codecs_lookup env enc of
             None \<Rightarrow> Inl LookupError
           | Some c \<Rightarrow> decode_ignore c dec_url))"

definition decode_url :: "'u environment \<Rightarrow> 'u BaseParser \<Rightarrow> basestring \<Rightarrow> exn + unicode" where
  "decode_url env self url_string =
     (let enc = encoding self in
      case encode_input env enc url_string of
        Inl e \<Rightarrow> Inl e
      | Inr b \<Rightarrow> decode_bytes env enc (unquote_safe b))"

text \<open>
  \<open>_regex_url_parse\<close>. The loop over the matches: an exception that is a \<open>ValueError\<close>
  drops the match, any other exception leaves the method (the result is then the
  exception alone); a constructed URL is added to the set. After the loop every object
  of the set is normalized in place.
\<close>

fun scan_matches :: "'u environment \<Rightarrow> 'u BaseParser \<Rightarrow> basestring list \<Rightarrow> 'u pyset \<Rightarrow> exn + 'u pyset" where
  "scan_matches env self [] urlset = Inr urlset"
| "scan_matches env self (url # urls) urlset =
     (case decode_url env self url of
        Inl e \<Rightarrow> if is_ValueError e then scan_matches env self urls urlset else Inl e
      | Inr decoded \<Rightarrow>
          (case URL env decoded (encoding self) of
             None \<Rightarrow> scan_matches env self urls urlset
           | Some decoded_url \<Rightarrow> scan_matches env self urls (set_add env decoded_url urlset)))"

definition normalize_all :: "'u environment \<Rightarrow> 'u pyset \<Rightarrow> 'u pyset" where
  "normalize_all env s = map (\<lambda>(h, u). (h, normalize_url env u)) s"

definition regex_url_parse :: "'u environment \<Rightarrow> 'u BaseParser \<Rightarrow> basestring \<Rightarrow> exn + 'u BaseParser" where
  "regex_url_parse env self doc_str =
     (case scan_matches env self (URL_RE_findall env doc_str) (re_urls self) of
        Inl e \<Rightarrow> Inl e
      | Inr s \<Rightarrow> Inr (self\<lparr>re_urls := normalize_all env s\<rparr>))"

text \<open>Successive calls on one instance, over a list of texts.\<close>

fun parse_all :: "'u environment \<Rightarrow> 'u BaseParser \<Rightarrow> basestring list \<Rightarrow> exn + 'u BaseParser" where
  "parse_all env self [] = Inr self"
| "parse_all env self (d # ds) =
     (case regex_url_parse env self d of Inl e \<Rightarrow> Inl e | Inr self' \<Rightarrow> parse_all env self' ds)"

text \<open>
  The capabilities. Each method of \<open>BaseParser\<close> raises \<open>NotImplementedError\<close>;
  \<open>_return_empty_list\<close> takes any arguments and returns the empty list.
\<close>

definition get_forms :: "'u BaseParser \<Rightarrow> exn + 'r list" where
  "get_forms self = Inl (NotImplementedError
     ''You should create your own parser class and implement the get_forms() method.'')"

definition get_references :: "'u BaseParser \<Rightarrow> exn + 'r list" where
  "get_references self = Inl (NotImplementedError
     ''You should create your own parser class and implement the get_references() method.'')"

definition get_emails :: "'u BaseParser \<Rightarrow> string option \<Rightarrow> exn + 'r list" where
  "get_emails self domain = Inl (NotImplementedError
     ''You should create your own parser class and implement the get_emails() method.'')"

definition get_comments :: "'u BaseParser \<Rightarrow> exn + 'r list" where
  "get_comments self = Inl (NotImplementedError
     ''You should create your own parser class and implement the get_comments() method.'')"

definition get_scripts :: "'u BaseParser \<Rightarrow> exn + 'r list" where
  "get_scripts self = Inl (NotImplementedError
     ''You should create your own parser class and implement the get_scripts() method.'')"

definition get_meta_redir :: "'u BaseParser \<Rightarrow> exn + 'r list" where
  "get_meta_redir self = Inl (NotImplementedError
     ''You should create your own parser class and implement the get_meta_redir() method.'')"

definition get_meta_tags :: "'u BaseParser \<Rightarrow> exn + 'r list" where
  "get_meta_tags self = Inl (NotImplementedError
     ''You should create your own parser class and implement the get_meta_tags() method.'')"

definition return_empty_list :: "'u BaseParser \<Rightarrow> 'args \<Rightarrow> exn + 'r list" where
  "return_empty_list self args = Inr []"

text \<open>
  A concrete parser is a subclass: for each capability its class body either defines the
  method or does not, and attribute lookup falls back to \<open>BaseParser\<close>'s method. The
  arguments of a call are the optional \<open>domain\<close> of \<open>get_emails\<close>.
\<close>

datatype capability = Forms | References | Emails | Comments | Scripts | Meta_redir | Meta_tags

type_synonym ('u, 'r) bound_method = "'u BaseParser \<Rightarrow> string option \<Rightarrow> exn + 'r list"

fun BaseParser_method :: "capability \<Rightarrow> ('u, 'r) bound_method" where
  "BaseParser_method Forms = (\<lambda>self args. get_forms self)"
| "BaseParser_method References = (\<lambda>self args. get_references self)"
| "BaseParser_method Emails = (\<lambda>self args. get_emails self args)"
| "BaseParser_method Comments = (\<lambda>self args. get_comments self)"
| "BaseParser_method Scripts = (\<lambda>self args. get_scripts self)"
| "BaseParser_method Meta_redir = (\<lambda>self args. get_meta_redir self)"
| "BaseParser_method Meta_tags = (\<lambda>self args. get_meta_tags self)"

definition invoke :: "(capability \<Rightarrow> ('u, 'r) bound_method option) \<Rightarrow> capability \<Rightarrow> ('u, 'r) bound_method" where
  "invoke subclass cap self args =
     (case subclass cap of
        Some m \<Rightarrow> m self args
      | None \<Rightarrow> BaseParser_method cap self args)"

section \<open>Codecs of the Python library\<close>

text \<open>
  Four codecs of CPython 2.7, to run the model on concrete inputs: \<open>latin-1\<close>, whose
  characters are the bytes, \<open>utf-16-le\<close>, \<open>utf-7\<close> and \<open>hex\<close>.
\<close>

definition latin_1 :: codec where
  "latin_1 =
     \<lparr>encode = (\<lambda>u. if list_all (\<lambda>x. x < 256) u then Some (map char_of u) else None),
      decode_ignore = (\<lambda>b. Inr (map of_char b))\<rparr>"

text \<open>
  UTF-16, little endian, no byte order mark. The encoder writes a code point above
  \<open>0xFFFF\<close> as a surrogate pair. The decoder with \<open>'ignore'\<close>: a trailing single byte and a
  surrogate with fewer than two bytes after it end the decoding (the error runs to the
  end of the input); a high surrogate not followed by a low one, and a low surrogate on
  its own, are skipped (two bytes).
\<close>

definition utf16_units :: "nat \<Rightarrow> nat list" where
  "utf16_units x =
     (if x < 0x10000 then [x]
      else [0xD800 + (x - 0x10000) div 1024, 0xDC00 + (x - 0x10000) mod 1024])"

definition utf16le_encode :: "unicode \<Rightarrow> bytes" where
  "utf16le_encode u =
     concat (map (\<lambda>x. [char_of (x mod 256), char_of (x div 256)]) (concat (map utf16_units u)))"

fun utf16le_decode_ignore :: "bytes \<Rightarrow> unicode" where
  "utf16le_decode_ignore (lo # hi # rest) =
     (let ch = of_char lo + 256 * (of_char hi :: nat) in
      if ch < 0xD800 \<or> ch > 0xDFFF then ch # utf16le_decode_ignore rest
      else
        (case rest of
           lo2 # hi2 # rest2 \<Rightarrow>
             let ch2 = of_char lo2 + 256 * (of_char hi2 :: nat) in
             if ch \<le> 0xDBFF \<and> 0xDC00 \<le> ch2 \<and> ch2 \<le> 0xDFFF
             then ((ch mod 1024) * 1024 + ch2 mod 1024 + 0x10000) # utf16le_decode_ignore rest2
             else utf16le_decode_ignore rest
         | _ \<Rightarrow> []))"
| "utf16le_decode_ignore bs = []"

definition utf_16_le :: codec where
  "utf_16_le =
     \<lparr>encode = (\<lambda>u. Some (utf16le_encode u)),
      decode_ignore = (\<lambda>b. Inr (utf16le_decode_ignore b))\<rparr>"

text \<open>
  UTF-7. The decoder with \<open>'ignore'\<close> is CPython's loop over the input bytes; its state is
  whether it is inside a base-64 section, the bits collected there (their number and
  value) and a pending high surrogate (0 for none). A step yields the code points it
  emits, the new state and whether it consumed the following byte too (the \<open>-\<close> of
  \<open>+-\<close>). A byte above 127 outside a base-64 section, a section left with a partial
  character and non-zero padding bits are errors, which \<open>'ignore'\<close> skips.
\<close>

definition base64_alphabet :: string where
  "base64_alphabet = ''ABCDEFGHIJKLMNOPQRSTUVWXYZabcdefghijklmnopqrstuvwxyz0123456789+/''"

definition to_base64 :: "nat \<Rightarrow> char" where
  "to_base64 n = base64_alphabet ! (n mod 64)"

definition is_base64 :: "nat \<Rightarrow> bool" where
  "is_base64 c = (c < 128 \<and> char_of c \<in> set base64_alphabet)"

definition from_base64 :: "nat \<Rightarrow> nat" where
  "from_base64 c =
     (if 65 \<le> c \<and> c \<le> 90 then c - 65
      else if 97 \<le> c \<and> c \<le> 122 then c - 71
      else if 48 \<le> c \<and> c \<le> 57 then c + 4
      else if c = 43 then 62 else 63)"

type_synonym utf7_state = "bool \<times> nat \<times> nat \<times> nat"

definition utf7_decode_step :: "utf7_state \<Rightarrow> nat \<Rightarrow> nat list \<Rightarrow> unicode \<times> utf7_state \<times> nat" where
  "utf7_decode_step st ch s =
     (case st of (inShift, bits, buf, surrogate) \<Rightarrow>
      if inShift then
        if is_base64 ch then
          let buf1 = buf * 64 + from_base64 ch; bits1 = bits + 6 in
          if 16 \<le> bits1 then
            let outCh = buf1 div 2 ^ (bits1 - 16);
                bits2 = bits1 - 16;
                buf2 = buf1 mod 2 ^ bits2
            in if surrogate \<noteq> 0 \<and> 0xDC00 \<le> outCh \<and> outCh \<le> 0xDFFF
               then ([(surrogate mod 1024) * 1024 + outCh mod 1024 + 0x10000],
                     (True, bits2, buf2, 0), 0)
               else if 0xD800 \<le> outCh \<and> outCh \<le> 0xDBFF
               then ((if surrogate \<noteq> 0 then [surrogate] else []), (True, bits2, buf2, outCh), 0)
               else ((if surrogate \<noteq> 0 then [surrogate] else []) @ [outCh],
                     (True, bits2, buf2, 0), 0)
          else ([], (True, bits1, buf1, surrogate), 0)
        else
          ((if surrogate \<noteq> 0 then [surrogate] else []) @
           (if 6 \<le> bits \<or> (0 < bits \<and> buf \<noteq> 0) then []
            else if ch \<noteq> 45 then [ch] else []),
           (False, 0, 0, 0), 0)
      else if ch = 43 then
        (case s of
           c2 # s2 \<Rightarrow> if c2 = 45 then ([43], (False, 0, 0, 0), 1) else ([], (True, 0, 0, 0), 0)
         | [] \<Rightarrow> ([], (True, 0, 0, 0), 0))
      else if ch \<le> 127 then ([ch], (False, 0, 0, 0), 0)
      else ([], (False, 0, 0, 0), 0))"

function utf7_decode_loop :: "utf7_state \<Rightarrow> nat list \<Rightarrow> unicode" where
  "utf7_decode_loop st s =
     (case s of
        [] \<Rightarrow> []
      | ch # rest \<Rightarrow>
          (case utf7_decode_step st ch rest of
             (out, st', skip) \<Rightarrow> out @ utf7_decode_loop st' (drop skip rest)))"
  by pat_completeness auto
termination
  by (relation "measure (\<lambda>(st, s). length s)") auto

declare utf7_decode_loop.simps [simp del]

definition utf7_decode_ignore :: "bytes \<Rightarrow> unicode" where
  "utf7_decode_ignore s = utf7_decode_loop (False, 0, 0, 0) (map of_char s)"

text \<open>
  The encoder writes the printable ASCII characters other than \<open>+\<close>, \<open>\\<close> and \<open>~\<close>, and
  tab, line feed and carriage return, as they are, \<open>+\<close> as \<open>+-\<close>, and every other code
  point in a base-64 section, as UTF-16.
\<close>

definition utf7_direct :: "nat \<Rightarrow> bool" where
  "utf7_direct c =
     (c \<in> {9, 10, 13} \<or> (32 \<le> c \<and> c \<le> 125 \<and> c \<noteq> 43 \<and> c \<noteq> 92))"

function utf7_flush :: "nat \<Rightarrow> nat \<Rightarrow> string" where
  "utf7_flush bits buf =
     (if 6 \<le> bits then to_base64 (buf div 2 ^ (bits - 6)) # utf7_flush (bits - 6) buf else [])"
  by pat_completeness auto
termination
  by (relation "measure (\<lambda>(bits, buf). bits)") auto

declare utf7_flush.simps [simp del]

definition utf7_encode_char :: "nat \<Rightarrow> nat \<Rightarrow> nat \<Rightarrow> string \<times> nat \<times> nat" where
  "utf7_encode_char bits buf ch =
     (let units = utf16_units ch;
          bits1 = bits + 16 * length units;
          buf1 = foldl (\<lambda>b x. b * 65536 + x) buf units
      in (utf7_flush bits1 buf1, bits1 mod 6, buf1 mod 2 ^ (bits1 mod 6)))"

definition utf7_encode_step :: "bool \<times> nat \<times> nat \<Rightarrow> nat \<Rightarrow> string \<times> (bool \<times> nat \<times> nat)" where
  "utf7_encode_step st ch =
     (case st of (inShift, bits, buf) \<Rightarrow>
      if inShift \<and> utf7_direct ch then
        ((if 0 < bits then [to_base64 (buf * 2 ^ (6 - bits))] else []) @
         (if is_base64 ch \<or> ch = 45 then ''-'' else []) @ [char_of ch],
         (False, 0, 0))
      else if \<not> inShift \<and> ch = 43 then (''+-'', (False, bits, buf))
      else if \<not> inShift \<and> utf7_direct ch then ([char_of ch], (False, bits, buf))
      else
        (case utf7_encode_char bits buf ch of
           (out, bits', buf') \<Rightarrow> ((if inShift then [] else ''+'') @ out, (True, bits', buf'))))"

fun utf7_encode_loop :: "bool \<times> nat \<times> nat \<Rightarrow> unicode \<Rightarrow> string" where
  "utf7_encode_loop st [] =
     (case st of (inShift, bits, buf) \<Rightarrow>
        (if 0 < bits then [to_base64 (buf * 2 ^ (6 - bits))] else []) @
        (if inShift then ''-'' else []))"
| "utf7_encode_loop st (ch # s) =
     (case utf7_encode_step st ch of (out, st') \<Rightarrow> out @ utf7_encode_loop st' s)"

definition utf_7 :: codec where
  "utf_7 =
     \<lparr>encode = (\<lambda>u. Some (utf7_encode_loop (False, 0, 0) u)),
      decode_ignore = (\<lambda>b. Inr (utf7_decode_ignore b))\<rparr>"

text \<open>
  \<open>hex\<close> (\<open>encodings/hex_codec.py\<close>). Both functions start with
  \<open>assert errors == 'strict'\<close>, so the decoder called with \<open>'ignore'\<close> raises
  \<open>AssertionError\<close> for every input. The encoder, called with the default \<open>'strict'\<close>,
  writes the two lower-case hexadecimal digits of every byte of its argument; a
  \<open>unicode\<close> argument is first turned into bytes with the default encoding (ASCII).
\<close>

definition b2a_hex :: "bytes \<Rightarrow> bytes" where
  "b2a_hex s =
     concat (map (\<lambda>c. [''0123456789abcdef'' ! (of_char c div 16),
                         ''0123456789abcdef'' ! (of_char c mod 16)]) s)"

definition hex_codec :: codec where
  "hex_codec =
     \<lparr>encode = (\<lambda>u. if list_all (\<lambda>x. x < 128) u then Some (b2a_hex (map char_of u)) else None),
      decode_ignore = (\<lambda>b. Inl AssertionError)\<rparr>"

section \<open>A sample environment\<close>

text \<open>
  To evaluate the model an environment is needed. The registry knows the four codecs
  above under their usual names. The URL class of the sample is a stand-in for w3af's: a
  URL is its string, the constructor refuses a string without a host after the first
  colon and two slashes, normalization lower-cases ASCII letters, and two URLs are equal
  when their lower-cased strings are.
\<close>

definition sample_codecs :: "string \<Rightarrow> codec option" where
  "sample_codecs name =
     (if name \<in> set [''latin-1'', ''latin1'', ''iso-8859-1''] then Some latin_1
      else if name \<in> set [''utf-16-le'', ''utf-16le''] then Some utf_16_le
      else if name \<in> set [''utf-7'', ''utf7''] then Some utf_7
      else if name \<in> set [''hex'', ''hex_codec''] then Some hex_codec
      else None)"

definition lower :: "nat \<Rightarrow> nat" where
  "lower c = (if 65 \<le> c \<and> c \<le> 90 then c + 32 else c)"

definition netloc :: "unicode \<Rightarrow> unicode" where
  "netloc data = takeWhile (\<lambda>c. c \<noteq> 47) (drop 3 (dropWhile (\<lambda>c. c \<noteq> 58) data))"

definition sample_env :: "unicode environment" where
  "sample_env =
     \<lparr>codecs_lookup = sample_codecs,
      unicode_isalnum = (\<lambda>c. (48 \<le> c \<and> c \<le> 57) \<or> (65 \<le> c \<and> c \<le> 90) \<or> (97 \<le> c \<and> c \<le> 122)),
      URL = (\<lambda>data enc. if netloc data = [] then None else Some data),
      normalize_url = map lower,
      get_domain = (\<lambda>u. map char_of (map lower (netloc u))),
      get_root_domain = (\<lambda>u. map char_of (map lower (netloc u))),
      url_eq = (\<lambda>a b. map lower a = map lower b),
      url_hash = (\<lambda>u. int (sum_list (map lower u)))\<rparr>"

text \<open>The \<open>unicode\<close> object of an ASCII literal.\<close>

definition ustring :: "string \<Rightarrow> unicode" where
  "ustring s = map of_char s"

definition sample_response :: "string \<Rightarrow> unicode http_response" where
  "sample_response cs =
     \<lparr>get_charset = cs,
      get_url = ustring ''http://Origin.example/index'',
      get_redir_url = Some (ustring ''http://Target.example/landing'')\<rparr>"

section \<open>Auxiliary notions for the statements\<close>

text \<open>\<open>w in doc\<close> and \<open>doc.startswith(w)\<close> for an ASCII literal \<open>w\<close>.\<close>

definition contains :: "basestring \<Rightarrow> string \<Rightarrow> bool" where
  "contains doc w = (case doc of Str s \<Rightarrow> sublist w s | Unicode u \<Rightarrow> sublist (ustring w) u)"

definition startswith :: "basestring \<Rightarrow> string \<Rightarrow> bool" where
  "startswith doc w = (case doc of Str s \<Rightarrow> prefix w s | Unicode u \<Rightarrow> prefix (ustring w) u)"

text \<open>The characters the last part of the pattern accepts.\<close>

definition url_char :: "(char \<Rightarrow> 'a) \<Rightarrow> 'a \<Rightarrow> bool" where
  "url_char lit c = (c \<notin> lit ` set [CHR '' '', CHR 0x0A, CHR 0x0D, CHR 0x09, CHR 0x22, CHR 0x27, CHR ''<'', CHR ''>''])"

text \<open>
  The URL object a match yields: \<open>None\<close> when \<open>_decode_url\<close> or the constructor raises.
  And the exception with which a match ends the loop: the one \<open>_decode_url\<close> raises when
  it is not a \<open>ValueError\<close>.
\<close>

definition candidate_url :: "'u environment \<Rightarrow> 'u BaseParser \<Rightarrow> basestring \<Rightarrow> 'u option" where
  "candidate_url env self m =
     (case decode_url env self m of Inl e \<Rightarrow> None | Inr d \<Rightarrow> URL env d (encoding self))"

definition abort_of :: "'u environment \<Rightarrow> 'u BaseParser \<Rightarrow> basestring \<Rightarrow> exn option" where
  "abort_of env self m =
     (case decode_url env self m of
        Inl e \<Rightarrow> if is_ValueError e then None else Some e
      | Inr d \<Rightarrow> None)"

text \<open>
  Modelled from the spec: what the module needs of the class \<open>URL\<close>, which is not among
  the sources. \<open>==\<close> is an equivalence that \<open>hash\<close> respects (the contract of a hashable
  type), and normalization "standardizes but does not change identity/equality class"
  (spec 4.2, step 4).
\<close>

definition url_contract :: "'u environment \<Rightarrow> bool" where
  "url_contract env \<longleftrightarrow>
     (\<forall>a. url_eq env a a)
     \<and> (\<forall>a b. url_eq env a b \<longrightarrow> url_eq env b a)
     \<and> (\<forall>a b c. url_eq env a b \<and> url_eq env b c \<longrightarrow> url_eq env a c)
     \<and> (\<forall>a b. url_eq env a b \<longrightarrow> url_hash env a = url_hash env b)
     \<and> (\<forall>a. url_eq env (normalize_url env a) a)"




text \<open>
  Properties of a codec's decoder under \<open>'ignore'\<close>: it yields no NUL character from bytes
  without a NUL byte; it reads the bytes \<open>w\<close> in place, so that \<open>w\<close> between two byte
  strings decodes to the characters of \<open>w\<close> between the decodings of the two; it returns
  for every input. And of an encoding of the registry: its decoder raises nothing but
  \<open>ValueError\<close>s.
\<close>

definition nul_free_codec :: "codec \<Rightarrow> bool" where
  "nul_free_codec c \<longleftrightarrow>
     (\<forall>d u. CHR 0x00 \<notin> set d \<and> decode_ignore c d = Inr u \<longrightarrow> 0 \<notin> set u)"

definition reads_in_place :: "codec \<Rightarrow> bytes \<Rightarrow> bool" where
  "reads_in_place c w \<longleftrightarrow>
     (\<forall>a b ua ub. decode_ignore c a = Inr ua \<and> decode_ignore c b = Inr ub \<longrightarrow>
        decode_ignore c (a @ w @ b) = Inr (ua @ map of_char w @ ub))"

definition total_decoder :: "codec \<Rightarrow> bool" where
  "total_decoder c \<longleftrightarrow> (\<forall>d. \<exists>u. decode_ignore c d = Inr u)"

definition only_ValueErrors :: "'u environment \<Rightarrow> string \<Rightarrow> bool" where
  "only_ValueErrors env enc \<longleftrightarrow>
     (\<exists>c. codecs_lookup env enc = Some c
        \<and> (\<forall>d e. decode_ignore c d = Inl e \<longrightarrow> is_ValueError e))"


section \<open>Sample inputs\<close>

text \<open>
  The parser the constructor builds from the sample response, a document with four
  matches of which two fail, a document without a URL, and two subclasses, one that
  defines no capability and one that binds \<open>get_forms\<close> to \<open>_return_empty_list\<close>.
\<close>

definition sample_parser :: "string \<Rightarrow> unicode BaseParser" where
  "sample_parser cs =
     \<lparr>base_url = ustring ''http://Target.example/landing'',
      baseDomain = ''target.example'',
      rootDomain = ''target.example'',
      encoding = cs,
      re_urls = []\<rparr>"

definition sample_doc :: basestring where
  "sample_doc = Unicode (ustring ''<a href=http://a.example/x> http://b.example/'' @ [8364]
                   @ ustring '' http:// <https://C.example/%7e>'')"

definition plain_doc :: basestring where
  "plain_doc = Str ''see ftp://files.example/ or http:/www.example''"

definition bare_subclass :: "capability \<Rightarrow> (unicode, unit) bound_method option" where
  "bare_subclass cap = None"

definition text_subclass :: "capability \<Rightarrow> (unicode, unit) bound_method option" where
  "text_subclass cap = (if cap = Forms then Some return_empty_list else None)"



text \<open>
  Sample arguments of \<open>_decode_url\<close>: the spec's URL with an accent and \<open>%e9\<close>, a byte
  string with a NUL byte and a byte that is not UTF-8, and a byte string whose unquoted
  form is a UTF-7 shift sequence.
\<close>

definition accent_url :: basestring where
  "accent_url = Unicode (ustring ''http://h'' @ [244] @ ustring ''te.example/p%e9'')"

definition nul_url :: bytes where
  "nul_url = ''http://a/'' @ [CHR 0x00, CHR 0xFF]"


text \<open>A URL with a byte that is not UTF-8, and a document that holds it.\<close>

definition hex_url :: bytes where
  "hex_url = ''http://a/'' @ [CHR 0xFF]"

definition hex_doc :: basestring where
  "hex_doc = Str (''see '' @ hex_url)"

section \<open>Properties of the constructor\<close>

lemma sample_known: "is_known_encoding sample_env ''iso-8859-1''"
  by (simp add: is_known_encoding_def sample_env_def sample_codecs_def)

lemma sample_unknown: "\<not> is_known_encoding sample_env ''bogus-enc-9999''"
  by (simp add: is_known_encoding_def sample_env_def sample_codecs_def)

text \<open>
  C1. When the encoding validator rejects the declared charset, the constructor raises
  (\<open>ValueError\<close>, the spec's UnsupportedEncoding) and there is no instance; when it
  accepts the charset, the constructor returns an instance, with that charset and an
  empty URL set.
\<close>

theorem init_charset_check:
  "(\<not> is_known_encoding env (get_charset r) \<longrightarrow>
      BaseParser_init env r = Inl (ValueError (''Unknown encoding: '' @ get_charset r)))
   \<and> (is_known_encoding env (get_charset r) \<longrightarrow>
      (\<exists>p. BaseParser_init env r = Inr p \<and> encoding p = get_charset r \<and> re_urls p = []))"
  by (simp add: BaseParser_init_def Let_def)

theorem init_charset_check_witness:
  "BaseParser_init sample_env (sample_response ''bogus-enc-9999'')
     = Inl (ValueError ''Unknown encoding: bogus-enc-9999'')
   \<and> (\<exists>p. BaseParser_init sample_env (sample_response ''iso-8859-1'') = Inr p
          \<and> encoding p = ''iso-8859-1'' \<and> re_urls p = [])"
  using init_charset_check [of sample_env "sample_response ''bogus-enc-9999''"]
        init_charset_check [of sample_env "sample_response ''iso-8859-1''"]
        sample_known sample_unknown
  by (simp add: sample_response_def)

text \<open>
  C2. For a document whose charset is accepted, the base URL of the constructed parser
  is the redirect URL when there is one and the document's URL otherwise, and the stored
  base domain and root domain are those of that base URL.
\<close>

theorem init_effective_base_url:
  assumes "is_known_encoding env (get_charset r)"
  shows "\<exists>p. BaseParser_init env r = Inr p
           \<and> base_url p = (case get_redir_url r of Some redir \<Rightarrow> redir | None \<Rightarrow> get_url r)
           \<and> baseDomain p = get_domain env (base_url p)
           \<and> rootDomain p = get_root_domain env (base_url p)"
  using assms by (simp add: BaseParser_init_def Let_def)

theorem init_effective_base_url_witness:
  "\<exists>p. BaseParser_init sample_env (sample_response ''iso-8859-1'') = Inr p
      \<and> base_url p = ustring ''http://Target.example/landing''
      \<and> baseDomain p = ''target.example''
      \<and> baseDomain p \<noteq> get_domain sample_env (get_url (sample_response ''iso-8859-1''))"
proof -
  have d: "get_domain sample_env (ustring ''http://Target.example/landing'') = ''target.example''"
    by code_simp
  have d': "get_domain sample_env (ustring ''http://Origin.example/index'') = ''origin.example''"
    by code_simp
  show ?thesis
    using init_effective_base_url [of sample_env "sample_response ''iso-8859-1''"] sample_known d d'
    by (auto simp: sample_response_def)
qed


lemma sample_init_hex:
  "BaseParser_init sample_env (sample_response ''hex'') = Inr (sample_parser ''hex'')"
proof -
  have "get_domain sample_env (ustring ''http://Target.example/landing'') = ''target.example''"
       "get_root_domain sample_env (ustring ''http://Target.example/landing'') = ''target.example''"
    by code_simp+
  then show ?thesis
    by (simp add: BaseParser_init_def sample_response_def sample_parser_def Let_def
          is_known_encoding_def sample_env_def sample_codecs_def)
qed

section \<open>Properties of the capabilities\<close>

text \<open>
  C7, as the claim states it, fails: a subclass that does not define \<open>get_forms\<close> inherits
  the method of \<open>BaseParser\<close>, which raises \<open>NotImplementedError\<close>.
\<close>

theorem unimplemented_capability_counterexample:
  "invoke bare_subclass Forms (sample_parser ''iso-8859-1'') None
     = Inl (NotImplementedError
         ''You should create your own parser class and implement the get_forms() method.'')
   \<and> invoke bare_subclass Forms (sample_parser ''iso-8859-1'') None \<noteq> Inr []"
  by (simp add: invoke_def bare_subclass_def get_forms_def)

text \<open>
  C7, amended. A capability a subclass does not define raises \<open>NotImplementedError\<close>; a
  capability a subclass binds to \<open>_return_empty_list\<close> returns the empty list, whatever
  the arguments.
\<close>

theorem capability_defaults:
  "(subclass cap = None \<longrightarrow>
      (\<exists>msg. invoke subclass cap self args = Inl (NotImplementedError msg)))
   \<and> (subclass cap = Some return_empty_list \<longrightarrow> invoke subclass cap self args = Inr [])"
  by (cases cap)
     (simp_all add: invoke_def return_empty_list_def get_forms_def get_references_def
        get_emails_def get_comments_def get_scripts_def get_meta_redir_def get_meta_tags_def)

theorem capability_defaults_witness:
  "(\<exists>msg. invoke text_subclass Comments (sample_parser ''iso-8859-1'') None
             = Inl (NotImplementedError msg))
   \<and> invoke text_subclass Forms (sample_parser ''iso-8859-1'') None = Inr []"
  using capability_defaults [of text_subclass Comments "sample_parser ''iso-8859-1''" None]
        capability_defaults [of text_subclass Forms "sample_parser ''iso-8859-1''" None]
  by (simp add: text_subclass_def)


section \<open>Properties of the regular expression\<close>

lemma star_greedy_Some: "star_greedy p s Some = Some (dropWhile p s)"
  by (induction s) auto

lemma star_lazy_first: "k s = Some r \<Longrightarrow> star_lazy p s k = Some r"
  by (cases s) auto

lemma prefix_append_drop: "prefix (a @ b) s \<longleftrightarrow> prefix a s \<and> prefix b (drop (length a) s)"
  by (auto simp: prefix_def)

lemma rmatch_URL_RE:
  "rmatch (URL_RE lit alnum) s Some =
     (if prefix (map lit ''http://'') s
      then Some (dropWhile (url_char lit) (drop (length ''http://'') s))
      else if prefix (map lit ''https://'') s
      then Some (dropWhile (url_char lit) (drop (length ''https://'') s))
      else None)"
proof -
  have h: "prefix (map lit ''http://'') s \<longleftrightarrow>
             prefix (map lit ''http'') s \<and> prefix (map lit ''://'') (drop (length ''http'') s)"
    using prefix_append_drop [of "map lit ''http''" "map lit ''://''" s] by simp
  have hs: "prefix (map lit ''https://'') s \<longleftrightarrow>
             prefix (map lit ''https'') s \<and> prefix (map lit ''://'') (drop (length ''https'') s)"
    using prefix_append_drop [of "map lit ''https''" "map lit ''://''" s] by simp
  show ?thesis
    unfolding h hs
    by (simp add: URL_RE_def star_greedy_Some star_lazy_first url_char_def [abs_def])
qed

text \<open>A match at the start of the text: the scheme and the longest run of URL characters.\<close>

lemma match_shape:
  assumes "prefix w s" and "rest = dropWhile p (drop (length w) s)"
  shows "length rest < length s \<or> w = []"
    and "prefix w (take (length s - length rest) s)"
proof -
  from assms(1) obtain t where s: "s = w @ t" by (auto simp: prefix_def)
  have "length rest \<le> length t"
    using assms(2) s by (simp add: length_dropWhile_le)
  then show "length rest < length s \<or> w = []" using s by (cases w) auto
  from \<open>length rest \<le> length t\<close> show "prefix w (take (length s - length rest) s)"
    using s by simp
qed

lemma findall_URL_RE_step:
  "findall (URL_RE lit alnum) s =
     (if prefix (map lit ''http://'') s
      then take (length s - length (dropWhile (url_char lit) (drop (length ''http://'') s))) s
             # findall (URL_RE lit alnum) (dropWhile (url_char lit) (drop (length ''http://'') s))
      else if prefix (map lit ''https://'') s
      then take (length s - length (dropWhile (url_char lit) (drop (length ''https://'') s))) s
             # findall (URL_RE lit alnum) (dropWhile (url_char lit) (drop (length ''https://'') s))
      else (case s of [] \<Rightarrow> [] | _ # t \<Rightarrow> findall (URL_RE lit alnum) t))"
proof -
  have a: "length (dropWhile (url_char lit) (drop (length ''http://'') s)) < length s"
    if "prefix (map lit ''http://'') s"
    using match_shape(1) [OF that, of _ "url_char lit"] by simp
  have b: "length (dropWhile (url_char lit) (drop (length ''https://'') s)) < length s"
    if "prefix (map lit ''https://'') s"
    using match_shape(1) [OF that, of _ "url_char lit"] by simp
  show ?thesis
    using a b by (subst findall.simps) (simp add: rmatch_URL_RE del: length_dropWhile_le)
qed

lemma findall_URL_RE_scheme:
  "m \<in> set (findall (URL_RE lit alnum) s) \<Longrightarrow>
     prefix (map lit ''http://'') m \<or> prefix (map lit ''https://'') m"
proof (induction s arbitrary: m rule: length_induct)
  case (1 s)
  show ?case
  proof (cases "prefix (map lit ''http://'') s")
    case True
    let ?rest = "dropWhile (url_char lit) (drop (length ''http://'') s)"
    from 1(2) True have "m = take (length s - length ?rest) s \<or> m \<in> set (findall (URL_RE lit alnum) ?rest)"
      by (subst (asm) findall_URL_RE_step) simp
    moreover have "prefix (map lit ''http://'') (take (length s - length ?rest) s)"
      using match_shape(2) [OF True, of ?rest "url_char lit"] by simp
    moreover have "length ?rest < length s"
      using match_shape(1) [OF True, of ?rest "url_char lit"] by simp
    ultimately show ?thesis using 1(1) by blast
  next
    case False
    note nh = this
    show ?thesis
    proof (cases "prefix (map lit ''https://'') s")
      case True
      let ?rest = "dropWhile (url_char lit) (drop (length ''https://'') s)"
      from 1(2) True nh have "m = take (length s - length ?rest) s \<or> m \<in> set (findall (URL_RE lit alnum) ?rest)"
        by (subst (asm) findall_URL_RE_step) simp
      moreover have "prefix (map lit ''https://'') (take (length s - length ?rest) s)"
        using match_shape(2) [OF True, of ?rest "url_char lit"] by simp
      moreover have "length ?rest < length s"
        using match_shape(1) [OF True, of ?rest "url_char lit"] by simp
      ultimately show ?thesis using 1(1) by blast
    next
      case False
      with nh 1(2) obtain x t where "s = x # t" "m \<in> set (findall (URL_RE lit alnum) t)"
        by (subst (asm) findall_URL_RE_step) (auto split: list.splits)
      then show ?thesis using 1(1) by auto
    qed
  qed
qed

lemma findall_URL_RE_none:
  "\<not> sublist (map lit ''http://'') s \<Longrightarrow> \<not> sublist (map lit ''https://'') s \<Longrightarrow>
     findall (URL_RE lit alnum) s = []"
proof (induction s)
  case Nil
  then show ?case by (subst findall_URL_RE_step) simp
next
  case (Cons x t)
  from Cons.prems have "\<not> prefix (map lit ''http://'') (x # t)" "\<not> prefix (map lit ''https://'') (x # t)"
    by (auto dest: prefix_imp_sublist)
  moreover from Cons.prems have "\<not> sublist (map lit ''http://'') t" "\<not> sublist (map lit ''https://'') t"
    by (auto simp: sublist_Cons_right)
  ultimately show ?case using Cons.IH by (subst findall_URL_RE_step) simp
qed

lemma URL_RE_findall_scheme:
  assumes "m \<in> set (URL_RE_findall env doc)"
  shows "startswith m ''http://'' \<or> startswith m ''https://''"
proof (cases doc)
  case (Str s)
  with assms obtain x where x: "m = Str x"
      "x \<in> set (findall (URL_RE id (\<lambda>c. unicode_isalnum env (of_char c))) s)"
    by (auto simp: URL_RE_findall_def)
  from findall_URL_RE_scheme [OF x(2)] show ?thesis
    by (simp add: x(1) startswith_def)
next
  case (Unicode u)
  with assms obtain x where x: "m = Unicode x"
      "x \<in> set (findall (URL_RE of_char (unicode_isalnum env)) u)"
    by (auto simp: URL_RE_findall_def)
  from findall_URL_RE_scheme [OF x(2)] show ?thesis
    by (simp add: x(1) startswith_def ustring_def)
qed

lemma URL_RE_findall_none:
  assumes "\<not> contains doc ''http://''" and "\<not> contains doc ''https://''"
  shows "URL_RE_findall env doc = []"
proof (cases doc)
  case (Str s)
  with assms have "\<not> sublist (map id ''http://'') s" "\<not> sublist (map id ''https://'') s"
    by (simp_all add: contains_def)
  from findall_URL_RE_none [OF this] show ?thesis
    by (simp add: Str URL_RE_findall_def)
next
  case (Unicode u)
  with assms have "\<not> sublist (map of_char ''http://'') u" "\<not> sublist (map of_char ''https://'') u"
    by (simp_all add: contains_def ustring_def)
  from findall_URL_RE_none [OF this] show ?thesis
    by (simp add: Unicode URL_RE_findall_def)
qed

lemma normalize_all_Nil: "normalize_all env [] = []"
  by (simp add: normalize_all_def)

text \<open>
  C8. Every match of the pattern starts with \<open>http://\<close> or \<open>https://\<close>; on a text that
  contains neither, \<open>findall\<close> has no match and \<open>_regex_url_parse\<close> leaves an empty URL set
  empty (it returns the instance as it was).
\<close>

theorem regex_needs_scheme:
  "(\<forall>m \<in> set (URL_RE_findall env doc). startswith m ''http://'' \<or> startswith m ''https://'')
   \<and> (\<not> contains doc ''http://'' \<and> \<not> contains doc ''https://'' \<longrightarrow>
        URL_RE_findall env doc = []
        \<and> (\<forall>self. re_urls self = [] \<longrightarrow> regex_url_parse env self doc = Inr self))"
proof (intro conjI ballI impI allI)
  fix m assume "m \<in> set (URL_RE_findall env doc)"
  then show "startswith m ''http://'' \<or> startswith m ''https://''"
    by (rule URL_RE_findall_scheme)
next
  assume a: "\<not> contains doc ''http://'' \<and> \<not> contains doc ''https://''"
  then show e: "URL_RE_findall env doc = []" by (simp add: URL_RE_findall_none)
  fix self :: "'a BaseParser"
  assume "re_urls self = []"
  then show "regex_url_parse env self doc = Inr self"
    using a by (simp add: regex_url_parse_def URL_RE_findall_none normalize_all_Nil)
qed

theorem regex_needs_scheme_witness:
  "\<not> contains plain_doc ''http://'' \<and> \<not> contains plain_doc ''https://''
   \<and> URL_RE_findall sample_env plain_doc = []
   \<and> regex_url_parse sample_env (sample_parser ''iso-8859-1'') plain_doc
         = Inr (sample_parser ''iso-8859-1'')
   \<and> list_all (\<lambda>m. startswith m ''http://'' \<or> startswith m ''https://'')
         (URL_RE_findall sample_env sample_doc)"
proof -
  have c: "\<not> contains plain_doc ''http://''" "\<not> contains plain_doc ''https://''"
    by code_simp+
  have e: "re_urls (sample_parser ''iso-8859-1'') = []"
    by (simp add: sample_parser_def)
  from regex_needs_scheme [of sample_env plain_doc] regex_needs_scheme [of sample_env sample_doc] c e
  show ?thesis by (simp add: list_all_iff)
qed

section \<open>Properties of the extraction\<close>



lemma decode_url_safe_error:
  assumes "only_ValueErrors env (encoding self)" and "decode_url env self m = Inl e"
  shows "is_ValueError e"
proof -
  from assms(1) obtain c where c: "codecs_lookup env (encoding self) = Some c"
    and v: "\<And>d e. decode_ignore c d = Inl e \<Longrightarrow> is_ValueError e"
    by (auto simp: only_ValueErrors_def)
  from assms(2) c have "e = UnicodeEncodeError \<or> (\<exists>d. decode_ignore c d = Inl e)"
    by (auto simp: decode_url_def encode_input_def decode_bytes_def Let_def
             split: basestring.splits option.splits sum.splits)
  with v show ?thesis by auto
qed

lemma abort_of_safe:
  assumes "only_ValueErrors env (encoding self)"
  shows "List.map_filter (abort_of env self) ms = []"
proof -
  have "abort_of env self m = None" for m
    using decode_url_safe_error [OF assms, of m]
    by (simp add: abort_of_def split: sum.splits)
  then show ?thesis by (simp add: List.map_filter_def)
qed

lemma scan_matches_eq:
  "scan_matches env self ms s =
     (case List.map_filter (abort_of env self) ms of
        [] \<Rightarrow> Inr (foldl (\<lambda>s u. set_add env u s) s (List.map_filter (candidate_url env self) ms))
      | e # es \<Rightarrow> Inl e)"
proof (induction ms arbitrary: s)
  case Nil
  show ?case by (simp add: List.map_filter_simps)
next
  case (Cons m ms)
  show ?case
  proof (cases "decode_url env self m")
    case (Inl e)
    then have c: "List.map_filter (candidate_url env self) (m # ms)
                    = List.map_filter (candidate_url env self) ms"
      by (simp add: candidate_url_def List.map_filter_simps)
    show ?thesis
    proof (cases "is_ValueError e")
      case True
      with Inl have a: "List.map_filter (abort_of env self) (m # ms)
                          = List.map_filter (abort_of env self) ms"
        by (simp add: abort_of_def List.map_filter_simps)
      from Inl True have "scan_matches env self (m # ms) s = scan_matches env self ms s"
        by simp
      then show ?thesis unfolding a c by (simp only: Cons)
    next
      case False
      with Inl have a: "List.map_filter (abort_of env self) (m # ms)
                          = e # List.map_filter (abort_of env self) ms"
        by (simp add: abort_of_def List.map_filter_simps)
      from Inl False have "scan_matches env self (m # ms) s = Inl e"
        by simp
      then show ?thesis unfolding a by simp
    qed
  next
    case (Inr d)
    then have a: "List.map_filter (abort_of env self) (m # ms)
                    = List.map_filter (abort_of env self) ms"
      by (simp add: abort_of_def List.map_filter_simps)
    show ?thesis
    proof (cases "URL env d (encoding self)")
      case None
      with Inr have c: "List.map_filter (candidate_url env self) (m # ms)
                          = List.map_filter (candidate_url env self) ms"
        by (simp add: candidate_url_def List.map_filter_simps)
      from Inr None have "scan_matches env self (m # ms) s = scan_matches env self ms s"
        by simp
      then show ?thesis unfolding a c by (simp only: Cons)
    next
      case (Some u)
      with Inr have c: "List.map_filter (candidate_url env self) (m # ms)
                          = u # List.map_filter (candidate_url env self) ms"
        by (simp add: candidate_url_def List.map_filter_simps)
      from Inr Some have "scan_matches env self (m # ms) s = scan_matches env self ms (set_add env u s)"
        by simp
      then show ?thesis unfolding a c by (simp only: Cons foldl_Cons)
    qed
  qed
qed

lemma regex_url_parse_eq:
  "regex_url_parse env self doc =
     (case List.map_filter (abort_of env self) (URL_RE_findall env doc) of
        [] \<Rightarrow> Inr (self\<lparr>re_urls := normalize_all env
                 (foldl (\<lambda>s u. set_add env u s) (re_urls self)
                    (List.map_filter (candidate_url env self) (URL_RE_findall env doc)))\<rparr>)
      | e # es \<Rightarrow> Inl e)"
  by (simp add: regex_url_parse_def scan_matches_eq split: list.splits)


lemma regex_url_parse_safe:
  assumes "only_ValueErrors env (encoding self)"
  shows "regex_url_parse env self doc =
           Inr (self\<lparr>re_urls := normalize_all env
                  (foldl (\<lambda>s u. set_add env u s) (re_urls self)
                     (List.map_filter (candidate_url env self) (URL_RE_findall env doc)))\<rparr>)"
  by (simp add: regex_url_parse_eq abort_of_safe [OF assms])

lemma sample_latin1_safe: "only_ValueErrors sample_env (encoding (sample_parser ''iso-8859-1''))"
  by (simp add: only_ValueErrors_def sample_env_def sample_codecs_def sample_parser_def latin_1_def)

lemma sample_first_pass:
  "normalize_all sample_env
     (foldl (\<lambda>s u. set_add sample_env u s) (re_urls (sample_parser ''iso-8859-1''))
        (List.map_filter (candidate_url sample_env (sample_parser ''iso-8859-1''))
           (URL_RE_findall sample_env sample_doc)))
   = [(1658, ustring ''http://a.example/x''), (1781, ustring ''https://c.example/~'')]"
  by code_simp

text \<open>
  C3, as the claim states it, fails: \<open>hex\<close> is an encoding the registry knows, so the
  constructor accepts it, and its decoder raises \<open>AssertionError\<close> when it is called with
  \<open>'ignore'\<close>. A match that is not valid UTF-8 then makes \<open>_decode_url\<close> raise an exception
  that \<open>except ValueError\<close> does not catch, and the pass ends with it.
\<close>

theorem regex_url_parse_fails_counterexample:
  "BaseParser_init sample_env (sample_response ''hex'') = Inr (sample_parser ''hex'')
   \<and> URL_RE_findall sample_env hex_doc = [Str hex_url]
   \<and> decode_url sample_env (sample_parser ''hex'') (Str hex_url) = Inl AssertionError
   \<and> regex_url_parse sample_env (sample_parser ''hex'') hex_doc = Inl AssertionError"
proof -
  have m: "URL_RE_findall sample_env hex_doc = [Str hex_url]" by code_simp
  have d: "decode_url sample_env (sample_parser ''hex'') (Str hex_url) = Inl AssertionError"
    by code_simp
  have "regex_url_parse sample_env (sample_parser ''hex'') hex_doc = Inl AssertionError"
    by (simp add: regex_url_parse_def m d)
  with sample_init_hex m d show ?thesis by simp
qed

text \<open>
  C3, amended. The pass raises exactly when \<open>_decode_url\<close> raises, for one of the matches,
  an exception that is not a \<open>ValueError\<close>, and it raises the exception of the first such
  match. Otherwise it returns: a match whose decoding or URL construction raises a
  \<open>ValueError\<close> is dropped and the following matches are still processed, and the
  resulting set is the old set with the URLs of the successful matches added in order,
  normalized. With an encoding whose decoder raises nothing but \<open>ValueError\<close>s (a
  character encoding, whose decoder skips malformed input under \<open>'ignore'\<close>) the pass
  returns for every text.
\<close>

theorem regex_url_parse_outcome:
  "regex_url_parse env self doc =
     (case List.map_filter (abort_of env self) (URL_RE_findall env doc) of
        [] \<Rightarrow> Inr (self\<lparr>re_urls := normalize_all env
                 (foldl (\<lambda>s u. set_add env u s) (re_urls self)
                    (List.map_filter (candidate_url env self) (URL_RE_findall env doc)))\<rparr>)
      | e # es \<Rightarrow> Inl e)
   \<and> (only_ValueErrors env (encoding self) \<longrightarrow>
        regex_url_parse env self doc =
          Inr (self\<lparr>re_urls := normalize_all env
                 (foldl (\<lambda>s u. set_add env u s) (re_urls self)
                    (List.map_filter (candidate_url env self) (URL_RE_findall env doc)))\<rparr>))"
  using regex_url_parse_eq [of env self doc] regex_url_parse_safe [of env self doc]
  by blast

theorem regex_url_parse_outcome_witness:
  "List.map_filter (candidate_url sample_env (sample_parser ''iso-8859-1''))
     (URL_RE_findall sample_env sample_doc)
     = [ustring ''http://a.example/x'', ustring ''https://C.example/~'']
   \<and> length (URL_RE_findall sample_env sample_doc) = 4
   \<and> (\<exists>p. regex_url_parse sample_env (sample_parser ''iso-8859-1'') sample_doc = Inr p
        \<and> elements (re_urls p) = [ustring ''http://a.example/x'', ustring ''https://c.example/~''])"
proof -
  have c: "List.map_filter (candidate_url sample_env (sample_parser ''iso-8859-1''))
             (URL_RE_findall sample_env sample_doc)
           = [ustring ''http://a.example/x'', ustring ''https://C.example/~'']"
    by code_simp
  have n: "length (URL_RE_findall sample_env sample_doc) = 4" by code_simp
  from regex_url_parse_outcome [of sample_env "sample_parser ''iso-8859-1''" sample_doc]
       sample_latin1_safe
  have "regex_url_parse sample_env (sample_parser ''iso-8859-1'') sample_doc
          = Inr ((sample_parser ''iso-8859-1'')
                   \<lparr>re_urls := normalize_all sample_env
                      (foldl (\<lambda>s u. set_add sample_env u s) (re_urls (sample_parser ''iso-8859-1''))
                         (List.map_filter (candidate_url sample_env (sample_parser ''iso-8859-1''))
                            (URL_RE_findall sample_env sample_doc)))\<rparr>)"
    by blast
  then have "regex_url_parse sample_env (sample_parser ''iso-8859-1'') sample_doc
          = Inr ((sample_parser ''iso-8859-1'')
                   \<lparr>re_urls := [(1658, ustring ''http://a.example/x''),
                                (1781, ustring ''https://c.example/~'')]\<rparr>)"
    unfolding sample_first_pass .
  with c n show ?thesis by (simp add: elements_def)
qed

subsection \<open>The invariant of the set\<close>

lemma ctr_refl: "url_contract env \<Longrightarrow> url_eq env a a"
  and ctr_sym: "url_contract env \<Longrightarrow> url_eq env a b \<Longrightarrow> url_eq env b a"
  and ctr_trans: "url_contract env \<Longrightarrow> url_eq env a b \<Longrightarrow> url_eq env b c \<Longrightarrow> url_eq env a c"
  and ctr_hash: "url_contract env \<Longrightarrow> url_eq env a b \<Longrightarrow> url_hash env a = url_hash env b"
  and ctr_norm: "url_contract env \<Longrightarrow> url_eq env (normalize_url env a) a"
  unfolding url_contract_def by blast+








lemma elements_normalize_all:
  "elements (normalize_all env s) = map (normalize_url env) (elements s)"
  by (simp add: elements_def normalize_all_def split_def)








lemma regex_url_parse_encoding:
  "regex_url_parse env self doc = Inr self' \<Longrightarrow> encoding self' = encoding self"
  by (auto simp: regex_url_parse_def split: sum.splits)

lemma parse_all_encoding:
  "parse_all env p docs = Inr self \<Longrightarrow> encoding self = encoding p"
proof (induction docs arbitrary: p)
  case Nil
  then show ?case by simp
next
  case (Cons d ds)
  then show ?case
    by (auto split: sum.splits dest: regex_url_parse_encoding)
qed












subsection \<open>Accumulation\<close>













section \<open>Properties of the decoding\<close>

text \<open>The models of \<open>unquote\<close> and of the UTF-8 decoder on known values.\<close>

lemma unquote_values:
  "unquote ''a%20b'' = ''a b''"
  "unquote ''%%41%4%zz%'' = ''%A%4%zz%''"
  "unquote ''abc'' = ''abc''"
  by code_simp+

lemma utf8_decode_values:
  "utf8_decode [CHR 0xE2, CHR 0x82, CHR 0xAC] = Some [0x20AC]"
  "utf8_decode [CHR 0xC0, CHR 0x80] = None"
  "utf8_decode [CHR 0xE0, CHR 0x80, CHR 0x80] = None"
  "utf8_decode [CHR 0xE9] = None"
  by code_simp+

subsection \<open>Unquoting and the substitution\<close>

lemma replace_char:
  "replace s [c] new = concat (map (\<lambda>x. if x = c then new else [x]) s)"
proof (induction s)
  case Nil
  show ?case by (subst replace.simps) simp
next
  case (Cons x s)
  then show ?case by (subst replace.simps) auto
qed

lemma unquote_safe_eq:
  "unquote_safe b = concat (map (\<lambda>x. if x = CHR 0x00 then ''%00'' else [x]) (unquote b))"
  by (simp add: unquote_safe_def SAFE_CHARS_def replace_char)

lemma unquote_safe_no_nul: "CHR 0x00 \<notin> set (unquote_safe b)"
  by (auto simp: unquote_safe_eq)

lemma split_not_Nil: "split sep s \<noteq> []"
  by (induction s) (auto split: list.splits)

lemma split_Cons_other:
  "c \<noteq> sep \<Longrightarrow> split sep (c # s) = (c # hd (split sep s)) # tl (split sep s)"
  using split_not_Nil [of sep s] by (cases "split sep s") auto

lemma split_Cons_sep: "split sep (sep # s) = [] # split sep s"
  by simp

lemmas split_Cons = split_Cons_other split_Cons_sep

declare split.simps(2) [simp del]


lemma split_append_other:
  "c \<noteq> sep \<Longrightarrow>
     split sep (a @ c # b) =
       butlast (split sep a) @ [last (split sep a) @ c # hd (split sep b)] @ tl (split sep b)"
proof (induction a)
  case Nil
  then show ?case by (simp add: split_Cons)
next
  case (Cons x a)
  show ?case
  proof (cases "x = sep")
    case True
    with Cons show ?thesis using split_not_Nil [of sep a] by (simp add: split_Cons)
  next
    case False
    obtain y ys where s: "split sep a = y # ys"
      using split_not_Nil [of sep a] by (cases "split sep a") auto
    show ?thesis
    proof (cases ys)
      case Nil
      with s False Cons show ?thesis by (simp add: split_Cons_other)
    next
      case (Cons z zs)
      with s False Cons.IH [OF Cons.prems] show ?thesis
        by (simp add: split_Cons_other)
    qed
  qed
qed

lemma split_single: "split sep s = [b] \<Longrightarrow> b = s"
proof (induction s arbitrary: b)
  case Nil
  then show ?case by simp
next
  case (Cons x s)
  show ?case
  proof (cases "x = sep")
    case True
    with Cons.prems show ?thesis using split_not_Nil [of sep s] by (simp add: split_Cons)
  next
    case False
    with Cons.prems have "split sep s = [hd (split sep s)]" and b: "b = x # hd (split sep s)"
      using split_not_Nil [of sep s] by (cases "split sep s"; simp add: split_Cons)+
    from Cons.IH [OF this(1)] b show ?thesis by simp
  qed
qed

lemma unquote_eq:
  "unquote s = hd (split CHR ''%'' s) @ concat (map unquote_item (tl (split CHR ''%'' s)))"
proof (cases "split CHR ''%'' s")
  case Nil
  then show ?thesis using split_not_Nil by blast
next
  case (Cons b bits)
  then show ?thesis
    by (auto simp: unquote_def dest: split_single)
qed


lemma unquote_item_nul: "unquote_item (z @ CHR 0x00 # w) = unquote_item z @ CHR 0x00 # w"
proof -
  have n: "CHR 0x00 \<notin> set hexdig" by (simp add: hexdig_def)
  show ?thesis
  proof (cases z)
    case Nil
    then show ?thesis using n by (cases w) (simp_all add: unquote_item_def)
  next
    case (Cons a z')
    then show ?thesis using n by (cases z') (simp_all add: unquote_item_def)
  qed
qed


lemma unquote_nul: "unquote (a @ CHR 0x00 # b) = unquote a @ CHR 0x00 # unquote b"
proof -
  let ?sa = "split CHR ''%'' a" and ?sb = "split CHR ''%'' b"
  have s: "split CHR ''%'' (a @ CHR 0x00 # b) = butlast ?sa @ [last ?sa @ CHR 0x00 # hd ?sb] @ tl ?sb"
    by (rule split_append_other) simp
  obtain y ys where sa: "?sa = y # ys"
    using split_not_Nil [of "CHR ''%''" a] by (cases ?sa) auto
  show ?thesis
  proof (cases "ys = []")
    case True
    with s sa show ?thesis by (simp add: unquote_eq)
  next
    case False
    then have "ys = butlast ys @ [last ys]" by simp
    then have "map unquote_item ys = map unquote_item (butlast ys) @ [unquote_item (last ys)]"
      by (metis list.simps(8,9) map_append)
    with s sa False show ?thesis by (simp add: unquote_eq unquote_item_nul)
  qed
qed


lemma unquote_safe_nul:
  "unquote_safe (a @ CHR 0x00 # b) = unquote_safe a @ ''%00'' @ unquote_safe b"
  by (simp add: unquote_safe_eq unquote_nul)

subsection \<open>The UTF-8 decoder\<close>

lemma utf8_code_length_ascii: "b < 128 \<Longrightarrow> utf8_code_length b = 1"
  by (simp add: utf8_code_length_def)

lemma utf8_decode_Nil: "utf8_decode [] = Some []"
  by (subst utf8_decode.simps) simp

lemma utf8_decode_ascii:
  "(of_char c :: nat) < 128 \<Longrightarrow> utf8_decode (c # s) = map_option ((#) (of_char c)) (utf8_decode s)"
  by (subst utf8_decode.simps) (simp add: utf8_code_length_ascii)

lemma utf8_char_cont:
  "utf8_char (b0 # bs) = Some u \<Longrightarrow> list_all is_cont bs"
  by (cases "b0 # bs" rule: utf8_char.cases) (simp_all split: if_splits)

lemma utf8_char_length:
  "utf8_char bs = Some u \<Longrightarrow> bs \<noteq> [] \<and> length bs = utf8_code_length (hd bs)"
  by (cases bs rule: utf8_char.cases) (simp_all split: if_splits)

lemma utf8_char_2_pos:
  assumes "utf8_code_length b0 = 2"
  shows "(b0 mod 32) * 64 + b1 mod 64 \<noteq> 0"
proof -
  from assms have "194 \<le> b0 \<and> b0 < 224"
    by (simp add: utf8_code_length_def split: if_splits)
  then have "b0 mod 32 \<noteq> 0" by presburger
  then show ?thesis by simp
qed

lemma utf8_char_3_pos:
  assumes "utf8_code_length b0 = 3" and "is_cont b1" and "\<not> (b0 = 224 \<and> b1 < 160)"
  shows "(b0 mod 16) * 4096 + (b1 mod 64) * 64 + b2 mod 64 \<noteq> 0"
proof -
  from assms(1) have r: "224 \<le> b0 \<and> b0 < 240"
    by (simp add: utf8_code_length_def split: if_splits)
  from assms(2) have c: "128 \<le> b1 \<and> b1 < 192"
    unfolding is_cont_def by presburger
  have "b0 mod 16 \<noteq> 0 \<or> b1 mod 64 \<noteq> 0"
    using r c assms(3) by presburger
  then show ?thesis by auto
qed

lemma utf8_char_4_pos:
  assumes "utf8_code_length b0 = 4" and "is_cont b1" and "\<not> (b0 = 240 \<and> b1 < 144)"
  shows "(b0 mod 8) * 262144 + (b1 mod 64) * 4096 + (b2 mod 64) * 64 + b3 mod 64 \<noteq> 0"
proof -
  from assms(1) have r: "240 \<le> b0 \<and> b0 < 245"
    by (simp add: utf8_code_length_def split: if_splits)
  from assms(2) have c: "128 \<le> b1 \<and> b1 < 192"
    unfolding is_cont_def by presburger
  have "b0 mod 8 \<noteq> 0 \<or> b1 mod 64 \<noteq> 0"
    using r c assms(3) by presburger
  then show ?thesis by auto
qed

lemma utf8_char_zero:
  assumes "utf8_char bs = Some 0"
  shows "bs = [0]"
proof (cases bs rule: utf8_char.cases)
  case (1 b0)
  with assms show ?thesis by (simp split: if_splits)
next
  case (2 b0 b1)
  with assms have h: "utf8_code_length b0 = 2" "(b0 mod 32) * 64 + b1 mod 64 = 0"
    by (simp_all split: if_splits)
  from utf8_char_2_pos [OF h(1), of b1] h(2) show ?thesis by (elim notE)
next
  case (3 b0 b1 b2)
  with assms have h: "utf8_code_length b0 = 3" "is_cont b1" "\<not> (b0 = 224 \<and> b1 < 160)"
      "(b0 mod 16) * 4096 + (b1 mod 64) * 64 + b2 mod 64 = 0"
    by (simp_all split: if_splits)
  from utf8_char_3_pos [OF h(1-3), of b2] h(4) show ?thesis by (elim notE)
next
  case (4 b0 b1 b2 b3)
  with assms have h: "utf8_code_length b0 = 4" "is_cont b1" "\<not> (b0 = 240 \<and> b1 < 144)"
      "(b0 mod 8) * 262144 + (b1 mod 64) * 4096 + (b2 mod 64) * 64 + b3 mod 64 = 0"
    by (simp_all split: if_splits)
  from utf8_char_4_pos [OF h(1-3), of b2 b3] h(4) show ?thesis by (elim notE)
qed (use assms in simp_all)

lemma utf8_decode_Cons:
  "utf8_decode (c # cs) = Some u \<longleftrightarrow>
     utf8_code_length (of_char c) \<noteq> 0
     \<and> (\<exists>v u'. utf8_char (map of_char (take (utf8_code_length (of_char c)) (c # cs))) = Some v
           \<and> utf8_decode (drop (utf8_code_length (of_char c)) (c # cs)) = Some u'
           \<and> u = v # u')"
  by (subst utf8_decode.simps) (auto simp: Let_def split: option.splits)

lemma of_char_eq_0:
  assumes "(of_char c :: nat) = 0"
  shows "c = CHR 0x00"
proof -
  have "char_of (0::nat) = CHR 0x00" by code_simp
  moreover have "char_of (of_char c :: nat) = c" by simp
  ultimately show ?thesis using assms by simp
qed

lemma utf8_decode_no_nul:
  "utf8_decode s = Some u \<Longrightarrow> CHR 0x00 \<notin> set s \<Longrightarrow> 0 \<notin> set u"
proof (induction s arbitrary: u rule: length_induct)
  case (1 s)
  show ?case
  proof (cases s)
    case Nil
    with 1(2) show ?thesis by (simp add: utf8_decode_Nil)
  next
    case (Cons c cs)
    let ?n = "utf8_code_length (of_char c)"
    from 1(2) Cons obtain v u' where n: "?n \<noteq> 0"
      and v: "utf8_char (map of_char (take ?n (c # cs))) = Some v"
      and u': "utf8_decode (drop ?n (c # cs)) = Some u'" and u: "u = v # u'"
      by (auto simp: utf8_decode_Cons)
    have "v \<noteq> 0"
    proof
      assume "v = 0"
      with v have "map of_char (take ?n (c # cs)) = [0::nat]" by (simp add: utf8_char_zero)
      with n have "(of_char c :: nat) = 0" by (cases ?n) simp_all
      with 1(3) Cons show False by (auto dest: of_char_eq_0)
    qed
    moreover have "0 \<notin> set u'"
    proof -
      have "length (drop ?n (c # cs)) < length s" using n Cons by simp
      moreover have "CHR 0x00 \<notin> set (drop ?n (c # cs))"
        using 1(3) Cons by (auto dest: in_set_dropD)
      ultimately show ?thesis using 1(1) u' by blast
    qed
    ultimately show ?thesis using u by simp
  qed
qed

lemma utf8_decode_ascii_split:
  assumes c: "(of_char c :: nat) < 128"
  shows "utf8_decode (a @ c # b) = Some u \<Longrightarrow>
           \<exists>ua ub. utf8_decode a = Some ua \<and> utf8_decode b = Some ub \<and> u = ua @ of_char c # ub"
proof (induction a arbitrary: u rule: length_induct)
  case (1 a)
  show ?case
  proof (cases a)
    case Nil
    with 1(2) show ?thesis by (auto simp: utf8_decode_ascii [OF c] utf8_decode_Nil)
  next
    case (Cons x xs)
    let ?n = "utf8_code_length (of_char x)"
    from 1(2) Cons obtain v u' where n: "?n \<noteq> 0"
      and v: "utf8_char (map of_char (take ?n (x # xs @ c # b))) = Some v"
      and u': "utf8_decode (drop ?n (x # xs @ c # b)) = Some u'" and u: "u = v # u'"
      by (auto simp: utf8_decode_Cons)
    have le: "?n \<le> length a"
    proof (rule ccontr)
      assume "\<not> ?n \<le> length a"
      then have "take ?n (x # xs @ c # b) = x # xs @ c # take (?n - length a - 1) b"
        using Cons by (cases ?n) (simp_all add: take_Cons')
      with v have "list_all is_cont (map of_char (xs @ c # take (?n - length a - 1) b))"
        using utf8_char_cont [of "of_char x" "map of_char (xs @ c # take (?n - length a - 1) b)" v]
        by simp
      then have "is_cont (of_char c)" by simp
      with c show False by (simp add: is_cont_def)
    qed
    have e: "x # xs @ c # b = a @ c # b" using Cons by simp
    have t: "take ?n (x # xs @ c # b) = take ?n a"
      and d: "drop ?n (x # xs @ c # b) = drop ?n a @ c # b"
      unfolding e using le by simp_all
    have "length (drop ?n a) < length a" using n Cons by simp
    with 1(1) u' d obtain ua ub where ua: "utf8_decode (drop ?n a) = Some ua"
      and ub: "utf8_decode b = Some ub" and e: "u' = ua @ of_char c # ub"
      by (metis (no_types, lifting))
    from n v t ua Cons have "utf8_decode a = Some (v # ua)"
      by (simp add: utf8_decode_Cons)
    with ub e u show ?thesis by simp
  qed
qed

lemma utf8_decode_escape:
  assumes "utf8_decode (a @ ''%00'' @ b) = Some u"
  shows "\<exists>ua ub. utf8_decode a = Some ua \<and> utf8_decode b = Some ub \<and> u = ua @ ustring ''%00'' @ ub"
proof -
  have p: "(of_char CHR ''%'' :: nat) < 128" and z: "(of_char CHR ''0'' :: nat) < 128" by simp_all
  from assms utf8_decode_ascii_split [OF p, of a "''00'' @ b" u]
  obtain ua ub' where ua: "utf8_decode a = Some ua" and ub': "utf8_decode (''00'' @ b) = Some ub'"
    and u: "u = ua @ of_char CHR ''%'' # ub'"
    by auto
  from ub' obtain ub where "utf8_decode b = Some ub" "ub' = of_char CHR ''0'' # of_char CHR ''0'' # ub"
    by (auto simp: utf8_decode_ascii [OF z])
  with ua u show ?thesis by (simp add: ustring_def)
qed

subsection \<open>\<open>_decode_url\<close>\<close>

lemma decode_bytes_known:
  assumes "codecs_lookup env enc = Some c"
  shows "decode_bytes env enc d = (case utf8_decode d of Some u \<Rightarrow> Inr u | None \<Rightarrow> decode_ignore c d)"
  using assms by (simp add: decode_bytes_def split: option.splits)

lemma decode_url_known:
  assumes "codecs_lookup env (encoding self) = Some c" and "encode_input env (encoding self) x = Inr b"
  shows "decode_url env self x =
           (case utf8_decode (unquote_safe b) of Some u \<Rightarrow> Inr u
            | None \<Rightarrow> decode_ignore c (unquote_safe b))"
  using assms by (simp add: decode_url_def Let_def decode_bytes_known)

lemma sample_lookup:
  "codecs_lookup sample_env ''iso-8859-1'' = Some latin_1"
  "codecs_lookup sample_env ''utf-16-le'' = Some utf_16_le"
  "codecs_lookup sample_env ''utf-7'' = Some utf_7"
  "codecs_lookup sample_env ''hex'' = Some hex_codec"
  by (simp_all add: sample_env_def sample_codecs_def)

lemma sample_encoding: "encoding (sample_parser cs) = cs"
  by (simp add: sample_parser_def)

lemma encode_input_Str: "encode_input env enc (Str s) = Inr s"
  by (simp add: encode_input_def)

lemma latin_1_total: "total_decoder latin_1"
  by (simp add: total_decoder_def latin_1_def)

lemma latin_1_in_place: "reads_in_place latin_1 w"
  by (auto simp: reads_in_place_def latin_1_def)


text \<open>
  C6, as the claim states it, fails: with the encoding \<open>hex\<close>, which the constructor
  accepts, a byte string that is not valid UTF-8 reaches the fallback, and the decoder of
  \<open>hex\<close> called with \<open>'ignore'\<close> raises \<open>AssertionError\<close>, which leaves \<open>_decode_url\<close>.
\<close>

theorem decode_fallback_raises_counterexample:
  "is_known_encoding sample_env (encoding (sample_parser ''hex''))
   \<and> unquote_safe hex_url = hex_url
   \<and> utf8_decode hex_url = None
   \<and> decode_bytes sample_env (encoding (sample_parser ''hex'')) (unquote_safe hex_url)
       = Inl AssertionError
   \<and> decode_url sample_env (sample_parser ''hex'') (Str hex_url) = Inl AssertionError"
proof -
  have k: "is_known_encoding sample_env (encoding (sample_parser ''hex''))"
    by (simp add: is_known_encoding_def sample_encoding sample_lookup)
  have q: "unquote_safe hex_url = hex_url" by code_simp
  have u: "utf8_decode hex_url = None" by code_simp
  have b: "decode_bytes sample_env (encoding (sample_parser ''hex'')) hex_url = Inl AssertionError"
    by (simp add: decode_bytes_def u sample_encoding sample_lookup hex_codec_def)
  have "decode_url sample_env (sample_parser ''hex'') (Str hex_url) = Inl AssertionError"
    using b by (simp add: decode_url_def Let_def encode_input_Str q)
  with k q u b show ?thesis by simp
qed

text \<open>
  C6, amended. On an instance whose encoding the registry knows, the decoding of a byte
  sequence is its UTF-8 interpretation when that succeeds and otherwise (and only then)
  what the decoder of the instance's encoding yields with \<open>'ignore'\<close>: a string, or the
  exception that decoder raises. So \<open>_decode_url\<close>, once it has the bytes of its
  argument, raises only when those bytes are not valid UTF-8 and the decoder raises; for
  a decoder that returns for every input (a character encoding's, which skips malformed
  input) it always returns a string.
\<close>

theorem decode_fallback_outcome:
  assumes "codecs_lookup env (encoding self) = Some c"
  shows "(\<forall>d. decode_bytes env (encoding self) d =
              (case utf8_decode d of Some u \<Rightarrow> Inr u | None \<Rightarrow> decode_ignore c d))
       \<and> (\<forall>x b. encode_input env (encoding self) x = Inr b \<longrightarrow>
              decode_url env self x =
                (case utf8_decode (unquote_safe b) of Some u \<Rightarrow> Inr u
                 | None \<Rightarrow> decode_ignore c (unquote_safe b))
            \<and> (\<forall>e. decode_url env self x = Inl e \<longrightarrow>
                  utf8_decode (unquote_safe b) = None \<and> decode_ignore c (unquote_safe b) = Inl e)
            \<and> (total_decoder c \<longrightarrow> (\<exists>out. decode_url env self x = Inr out)))"
proof (intro conjI allI impI)
  show "decode_bytes env (encoding self) d =
          (case utf8_decode d of Some u \<Rightarrow> Inr u | None \<Rightarrow> decode_ignore c d)" for d
    by (rule decode_bytes_known [OF assms])
next
  fix x b assume e: "encode_input env (encoding self) x = Inr b"
  show r: "decode_url env self x =
          (case utf8_decode (unquote_safe b) of Some u \<Rightarrow> Inr u
           | None \<Rightarrow> decode_ignore c (unquote_safe b))"
    by (rule decode_url_known [OF assms e])
  show "utf8_decode (unquote_safe b) = None" if "decode_url env self x = Inl e" for e
    using that r by (simp split: option.splits)
  show "decode_ignore c (unquote_safe b) = Inl e" if "decode_url env self x = Inl e" for e
    using that r by (simp split: option.splits)
  show "\<exists>out. decode_url env self x = Inr out" if "total_decoder c"
  proof (cases "utf8_decode (unquote_safe b)")
    case None
    from that obtain u where "decode_ignore c (unquote_safe b) = Inr u"
      by (auto simp: total_decoder_def)
    with r None show ?thesis by simp
  next
    case (Some u)
    with r show ?thesis by simp
  qed
qed

theorem decode_fallback_outcome_witness:
  "decode_url sample_env (sample_parser ''iso-8859-1'') accent_url
     = Inr (ustring ''http://h'' @ [244] @ ustring ''te.example/p'' @ [233])
   \<and> decode_url sample_env (sample_parser ''iso-8859-1'') (Str ''http://example.com/ind%c3%a9x'')
     = Inr (ustring ''http://example.com/ind'' @ [233] @ ustring ''x'')
   \<and> (\<exists>out. decode_url sample_env (sample_parser ''iso-8859-1'') (Str hex_url) = Inr out)"
proof -
  let ?b = "''http://h'' @ [CHR 0xF4] @ ''te.example/p%e9''"
  let ?q = "''http://h'' @ [CHR 0xF4] @ ''te.example/p'' @ [CHR 0xE9]"
  have e: "encode_input sample_env (encoding (sample_parser ''iso-8859-1'')) accent_url = Inr ?b"
    by code_simp
  have q: "unquote_safe ?b = ?q" by code_simp
  have u: "utf8_decode ?q = None" by code_simp
  have d: "decode_ignore latin_1 ?q
             = Inr (ustring ''http://h'' @ [244] @ ustring ''te.example/p'' @ [233])"
    by code_simp
  let ?s = "''http://example.com/ind%c3%a9x''"
  have q': "unquote_safe ?s = ''http://example.com/ind'' @ [CHR 0xC3, CHR 0xA9] @ ''x''" by code_simp
  have u': "utf8_decode (''http://example.com/ind'' @ [CHR 0xC3, CHR 0xA9] @ ''x'')
              = Some (ustring ''http://example.com/ind'' @ [233] @ ustring ''x'')"
    by code_simp
  have c: "codecs_lookup sample_env (encoding (sample_parser ''iso-8859-1'')) = Some latin_1"
    by (simp add: sample_encoding sample_lookup)
  note t = decode_fallback_outcome [OF c]
  from t e have "decode_url sample_env (sample_parser ''iso-8859-1'') accent_url =
      (case utf8_decode (unquote_safe ?b) of Some u \<Rightarrow> Inr u
       | None \<Rightarrow> decode_ignore latin_1 (unquote_safe ?b))"
    by blast
  then have 1: "decode_url sample_env (sample_parser ''iso-8859-1'') accent_url
     = Inr (ustring ''http://h'' @ [244] @ ustring ''te.example/p'' @ [233])"
    unfolding q u d by simp
  from t encode_input_Str have "decode_url sample_env (sample_parser ''iso-8859-1'') (Str ?s) =
      (case utf8_decode (unquote_safe ?s) of Some u \<Rightarrow> Inr u
       | None \<Rightarrow> decode_ignore latin_1 (unquote_safe ?s))"
    by blast
  then have 2: "decode_url sample_env (sample_parser ''iso-8859-1'') (Str ?s)
     = Inr (ustring ''http://example.com/ind'' @ [233] @ ustring ''x'')"
    unfolding q' u' by simp
  from t encode_input_Str latin_1_total
  have 3: "\<exists>out. decode_url sample_env (sample_parser ''iso-8859-1'') (Str hex_url) = Inr out"
    by blast
  from 1 2 3 show ?thesis by simp
qed

text \<open>
  C5, as the claim states it, fails: with the encoding \<open>utf-16-le\<close> a byte string with a
  NUL byte and a byte that is not UTF-8 decodes to a string without the characters
  \<open>%00\<close>, since the fallback reads the substituted bytes two by two.
\<close>

theorem nul_escape_position_counterexample:
  "URL_RE_findall sample_env (Str nul_url) = [Str nul_url]
   \<and> decode_url sample_env (sample_parser ''utf-16-le'') (Str nul_url)
     = Inr [29800, 28788, 12090, 24879, 9519, 12336]
   \<and> \<not> sublist (ustring ''%00'') [29800, 28788, 12090, 24879, 9519, 12336]"
proof -
  have m: "URL_RE_findall sample_env (Str nul_url) = [Str nul_url]" by code_simp
  have q: "unquote_safe nul_url = ''http://a/%00'' @ [CHR 0xFF]" by code_simp
  have u: "utf8_decode (''http://a/%00'' @ [CHR 0xFF]) = None" by code_simp
  have d: "utf16le_decode_ignore (''http://a/%00'' @ [CHR 0xFF])
             = [29800, 28788, 12090, 24879, 9519, 12336]"
    by (simp add: Let_def)
  have "decode_url sample_env (sample_parser ''utf-16-le'') (Str nul_url)
          = (case utf8_decode (unquote_safe nul_url) of Some u \<Rightarrow> Inr u
             | None \<Rightarrow> decode_ignore utf_16_le (unquote_safe nul_url))"
    by (rule decode_url_known) (simp_all add: sample_encoding sample_lookup encode_input_Str)
  then have "decode_url sample_env (sample_parser ''utf-16-le'') (Str nul_url)
          = Inr [29800, 28788, 12090, 24879, 9519, 12336]"
    unfolding q u by (simp add: utf_16_le_def d)
  moreover have "\<not> sublist (ustring ''%00'') [29800, 28788, 12090, 24879, 9519, 12336]"
    by (simp add: ustring_def sublist_Cons_right)
  ultimately show ?thesis using m by simp
qed

text \<open>
  C5, amended. When the bytes of the argument hold a NUL byte, unquoting and the
  substitution put the three bytes \<open>%00\<close> in its place and leave no NUL byte. The decoded
  string has the characters \<open>%00\<close> at that position, between the decoding of what
  precedes and the decoding of what follows, in two cases: when the bytes are valid
  UTF-8 (the string then holds no NUL character either), and when they are not and the
  decoder of the instance's encoding reads the bytes \<open>%00\<close> in place, as that of
  \<open>latin-1\<close> does and that of \<open>utf-16-le\<close> does not.
\<close>

theorem nul_byte_escaped:
  assumes "codecs_lookup env (encoding self) = Some c"
    and "encode_input env (encoding self) x = Inr (a @ CHR 0x00 # b)"
  shows "unquote_safe (a @ CHR 0x00 # b) = unquote_safe a @ ''%00'' @ unquote_safe b
       \<and> CHR 0x00 \<notin> set (unquote_safe (a @ CHR 0x00 # b))
       \<and> (\<forall>u. utf8_decode (unquote_safe (a @ CHR 0x00 # b)) = Some u \<longrightarrow>
             (\<exists>ua ub. utf8_decode (unquote_safe a) = Some ua \<and> utf8_decode (unquote_safe b) = Some ub
                \<and> decode_url env self x = Inr (ua @ ustring ''%00'' @ ub)
                \<and> 0 \<notin> set (ua @ ustring ''%00'' @ ub)))
       \<and> (utf8_decode (unquote_safe (a @ CHR 0x00 # b)) = None \<and> reads_in_place c ''%00'' \<longrightarrow>
             (\<forall>ua ub. decode_ignore c (unquote_safe a) = Inr ua
                   \<and> decode_ignore c (unquote_safe b) = Inr ub \<longrightarrow>
                decode_url env self x = Inr (ua @ ustring ''%00'' @ ub)))"
proof (intro conjI allI impI)
  show e: "unquote_safe (a @ CHR 0x00 # b) = unquote_safe a @ ''%00'' @ unquote_safe b"
    by (rule unquote_safe_nul)
  show "CHR 0x00 \<notin> set (unquote_safe (a @ CHR 0x00 # b))"
    by (rule unquote_safe_no_nul)
  show "decode_url env self x = Inr (ua @ ustring ''%00'' @ ub)"
    if n: "utf8_decode (unquote_safe (a @ CHR 0x00 # b)) = None \<and> reads_in_place c ''%00''"
      and p: "decode_ignore c (unquote_safe a) = Inr ua \<and> decode_ignore c (unquote_safe b) = Inr ub"
    for ua ub
  proof -
    from n p have "decode_ignore c (unquote_safe a @ ''%00'' @ unquote_safe b)
                     = Inr (ua @ map of_char ''%00'' @ ub)"
      unfolding reads_in_place_def by blast
    with decode_url_known [OF assms] n e show ?thesis by (simp add: ustring_def)
  qed
  fix u assume u: "utf8_decode (unquote_safe (a @ CHR 0x00 # b)) = Some u"
  with e utf8_decode_escape [of "unquote_safe a" "unquote_safe b" u]
  obtain ua ub where p: "utf8_decode (unquote_safe a) = Some ua" "utf8_decode (unquote_safe b) = Some ub"
      "u = ua @ ustring ''%00'' @ ub"
    by auto
  from utf8_decode_no_nul [OF u unquote_safe_no_nul] p(3)
  have "0 \<notin> set (ua @ ustring ''%00'' @ ub)" by simp
  moreover from decode_url_known [OF assms] u p(3)
  have "decode_url env self x = Inr (ua @ ustring ''%00'' @ ub)" by simp
  ultimately show "\<exists>ua ub. utf8_decode (unquote_safe a) = Some ua \<and> utf8_decode (unquote_safe b) = Some ub
      \<and> decode_url env self x = Inr (ua @ ustring ''%00'' @ ub)
      \<and> 0 \<notin> set (ua @ ustring ''%00'' @ ub)"
    using p(1,2) by blast
qed

theorem nul_byte_escaped_witness:
  "unquote_safe (''http://a/'' @ CHR 0x00 # ''b'') = ''http://a/%00b''
   \<and> decode_url sample_env (sample_parser ''iso-8859-1'') (Str (''http://a/'' @ CHR 0x00 # ''b''))
       = Inr (ustring ''http://a/%00b'')
   \<and> utf8_decode (unquote_safe nul_url) = None
   \<and> decode_url sample_env (sample_parser ''iso-8859-1'') (Str nul_url)
       = Inr (ustring ''http://a/'' @ ustring ''%00'' @ [255])"
proof -
  have a: "unquote_safe ''http://a/'' = ''http://a/''" and b: "unquote_safe ''b'' = ''b''"
    by code_simp+
  have ua: "utf8_decode ''http://a/'' = Some (ustring ''http://a/'')"
    and ub: "utf8_decode ''b'' = Some (ustring ''b'')"
    and u: "utf8_decode ''http://a/%00b'' = Some (ustring ''http://a/%00b'')"
    by code_simp+
  from nul_byte_escaped [of sample_env "sample_parser ''iso-8859-1''" latin_1
        "Str (''http://a/'' @ CHR 0x00 # ''b'')" "''http://a/''" "''b''"]
  have 1: "unquote_safe (''http://a/'' @ CHR 0x00 # ''b'') = ''http://a/%00b''
       \<and> decode_url sample_env (sample_parser ''iso-8859-1'') (Str (''http://a/'' @ CHR 0x00 # ''b''))
           = Inr (ustring ''http://a/%00b'')"
    by (simp add: sample_encoding sample_lookup encode_input_Str a b ua ub u ustring_def)
  have n: "utf8_decode (unquote_safe (''http://a/'' @ CHR 0x00 # [CHR 0xFF])) = None"
    by code_simp
  have da: "decode_ignore latin_1 (unquote_safe ''http://a/'') = Inr (ustring ''http://a/'')"
    and db: "decode_ignore latin_1 (unquote_safe [CHR 0xFF]) = Inr [255]"
    by code_simp+
  have c: "codecs_lookup sample_env (encoding (sample_parser ''iso-8859-1'')) = Some latin_1"
    by (simp add: sample_encoding sample_lookup)
  have e: "encode_input sample_env (encoding (sample_parser ''iso-8859-1'')) (Str nul_url)
             = Inr (''http://a/'' @ CHR 0x00 # [CHR 0xFF])"
    by (simp add: encode_input_Str nul_url_def)
  from nul_byte_escaped [OF c e] n latin_1_in_place [of "''%00''"] da db
  have "decode_url sample_env (sample_parser ''iso-8859-1'') (Str nul_url)
           = Inr (ustring ''http://a/'' @ ustring ''%00'' @ [255])"
    by blast
  moreover from n have "utf8_decode (unquote_safe nul_url) = None"
    by (simp add: nul_url_def)
  ultimately show ?thesis using 1 by simp
qed

lemma utf16le_nul_free_aux:
  "CHR 0x00 \<notin> set d \<Longrightarrow> 0 \<notin> set (utf16le_decode_ignore d)"
proof (induction d rule: utf16le_decode_ignore.induct)
  case (1 lo hi rest)
  from 1(4) have "(of_char lo :: nat) \<noteq> 0" using of_char_eq_0 [of lo] by auto
  then have nz: "of_char lo + 256 * (of_char hi :: nat) \<noteq> 0" by simp
  show ?case
  proof (cases "of_char lo + 256 * (of_char hi :: nat) < 0xD800 \<or> of_char lo + 256 * (of_char hi :: nat) > 0xDFFF")
    case True
    with 1(1) [OF refl True] 1(4) nz show ?thesis by (simp add: Let_def)
  next
    case False
    show ?thesis
    proof (cases rest)
      case Nil
      with False show ?thesis by (simp add: Let_def)
    next
      case (Cons lo2 r1)
      note c1 = this
      show ?thesis
      proof (cases r1)
        case Nil
        with False c1 show ?thesis by (simp add: Let_def)
      next
        case (Cons hi2 rest2)
        with 1(2,3) [OF refl False c1 Cons refl] 1(4) False c1 show ?thesis
          by (auto simp: Let_def)
      qed
    qed
  qed
qed simp_all

lemma utf_16_le_nul_free: "nul_free_codec utf_16_le"
  by (auto simp: nul_free_codec_def utf_16_le_def utf16le_nul_free_aux)




end
